theory Spec2Isabelle
  imports Main "HOL-Library.AList"
begin

section \<open>Connection statistics and ping-failure tracking (src/wss/connectionMonitor.ts)\<close>

text \<open>
  Times are milliseconds since the epoch, as \<open>Date.now()\<close> and \<open>Date.getTime()\<close>
  return them. The counters are JavaScript numbers that only ever receive \<open>++\<close> from
  0 or 1; they are modelled as natural numbers (the increments are exact below \<open>2^53\<close>).
  A JavaScript \<open>Map\<close> iterates in insertion order and holds one entry per key: it is an
  association list, read with \<open>map_of\<close>, written with \<open>AList.update\<close> (which replaces
  the entry in place or appends a new one) and \<open>AList.delete\<close>.
\<close>

datatype conn_type = Host | Client

record PingFailure =
  instanceId :: string
  type_pf :: conn_type
  organizationId_pf :: "string option"
  userId_pf :: "string option"
  failureCount :: nat
  firstFailureTime :: int
  lastFailureTime :: int

text \<open>
  What the module hands to the logger. The \<open>timestamp\<close> fields (a fresh clock reading
  formatted as text), \<open>hoursSinceLastLog\<close> and the derived \<open>durationMinutes\<close> of a
  critical entry are left out of the payloads.
\<close>

datatype conn_event =
    PingFailureStatistics nat nat nat
  | CriticalPingFailures "PingFailure list"
  | ConnectionStatistics nat nat int nat nat
  | ConnectionMonitoringStarted

record conn_monitor =
  totalConnectionsCreated :: nat
  totalConnectionsClosed :: nat
  totalHostConnections :: nat
  totalClientConnections :: nat
  lastConnectionStatsLogged :: int
  pingFailures :: "(string \<times> PingFailure) list"
  lastPingFailureLogTime :: int
  clog :: "conn_event list"

definition CONNECTION_STATS_LOG_INTERVAL :: int where
  "CONNECTION_STATS_LOG_INTERVAL = 60 * 60 * 1000"

definition PING_FAILURE_LOG_INTERVAL :: int where
  "PING_FAILURE_LOG_INTERVAL = 5 * 60 * 1000"

definition incrementConnectionCreated :: "conn_type \<Rightarrow> conn_monitor \<Rightarrow> conn_monitor" where
  "incrementConnectionCreated ty s =
     (let s1 = s\<lparr>totalConnectionsCreated := totalConnectionsCreated s + 1\<rparr>
      in if ty = Host
         then s1\<lparr>totalHostConnections := totalHostConnections s1 + 1\<rparr>
         else s1\<lparr>totalClientConnections := totalClientConnections s1 + 1\<rparr>)"

definition incrementConnectionClosed :: "conn_type \<Rightarrow> conn_monitor \<Rightarrow> conn_monitor" where
  "incrementConnectionClosed ty s = s\<lparr>totalConnectionsClosed := totalConnectionsClosed s + 1\<rparr>"

text \<open>
  The loop of \<open>logPingFailures\<close> over \<open>pingFailures.values()\<close>: the accumulator is
  \<open>(failuresByType.host, failuresByType.client, criticalFailures)\<close>.
\<close>

fun tallyFailures :: "PingFailure list \<Rightarrow> nat \<times> nat \<times> PingFailure list
    \<Rightarrow> nat \<times> nat \<times> PingFailure list" where
  "tallyFailures [] acc = acc"
| "tallyFailures (failure # rest) (h, c, criticalFailures) =
     tallyFailures rest
       (if type_pf failure = Host then h + 1 else h,
        if type_pf failure = Client then c + 1 else c,
        if failureCount failure > 3 then criticalFailures @ [failure] else criticalFailures)"

definition criticalOf :: "(string \<times> PingFailure) list \<Rightarrow> PingFailure list" where
  "criticalOf pf = snd (snd (tallyFailures (map snd pf) (0, 0, [])))"

definition logPingFailures :: "conn_monitor \<Rightarrow> conn_monitor" where
  "logPingFailures s =
     (if length (pingFailures s) = 0 then s
      else
        (case tallyFailures (map snd (pingFailures s)) (0, 0, []) of
          (h, c, criticalFailures) \<Rightarrow>
            (let s1 = s\<lparr>clog := clog s @ [PingFailureStatistics (length (pingFailures s)) h c]\<rparr>
             in if length criticalFailures > 0
                then s1\<lparr>clog := clog s1 @ [CriticalPingFailures criticalFailures]\<rparr>
                else s1)))"

text \<open>
  \<open>recordPingFailure\<close> reads the clock twice: \<open>now\<close> is \<open>new Date()\<close> at entry,
  \<open>currentTime\<close> is the later \<open>Date.now()\<close>.
\<close>

definition recordPingFailure ::
    "string \<Rightarrow> conn_type \<Rightarrow> string option \<Rightarrow> string option \<Rightarrow> int \<Rightarrow> int
      \<Rightarrow> conn_monitor \<Rightarrow> conn_monitor" where
  "recordPingFailure i ty org usr now currentTime s =
     (let s1 =
        (case map_of (pingFailures s) i of
          Some existing \<Rightarrow>
            s\<lparr>pingFailures :=
                AList.update i
                  (existing\<lparr>failureCount := failureCount existing + 1, lastFailureTime := now\<rparr>)
                  (pingFailures s)\<rparr>
        | None \<Rightarrow>
            s\<lparr>pingFailures :=
                AList.update i
                  \<lparr>instanceId = i, type_pf = ty, organizationId_pf = org, userId_pf = usr,
                   failureCount = 1, firstFailureTime = now, lastFailureTime = now\<rparr>
                  (pingFailures s)\<rparr>)
      in if currentTime - lastPingFailureLogTime s1 > PING_FAILURE_LOG_INTERVAL
         then (logPingFailures s1)\<lparr>lastPingFailureLogTime := currentTime\<rparr>
         else s1)"

definition clearPingFailure :: "string \<Rightarrow> conn_monitor \<Rightarrow> conn_monitor" where
  "clearPingFailure i s = s\<lparr>pingFailures := AList.delete i (pingFailures s)\<rparr>"

text \<open>
  The hourly callback installed by \<open>startConnectionMonitoring\<close>; \<open>hostsSize\<close> and
  \<open>clientsSize\<close> are \<open>connectedHosts.size\<close> and \<open>connectedClients.size\<close>.
\<close>

definition connectionStatsTick :: "int \<Rightarrow> nat \<Rightarrow> nat \<Rightarrow> conn_monitor \<Rightarrow> conn_monitor" where
  "connectionStatsTick now hostsSize clientsSize s =
     s\<lparr>clog := clog s @
          [ConnectionStatistics (totalConnectionsCreated s) (totalConnectionsClosed s)
             (int (totalConnectionsCreated s) - int (totalConnectionsClosed s))
             hostsSize clientsSize],
       lastConnectionStatsLogged := now\<rparr>"

definition startConnectionMonitoring :: "conn_monitor \<Rightarrow> conn_monitor" where
  "startConnectionMonitoring s = s\<lparr>clog := clog s @ [ConnectionMonitoringStarted]\<rparr>"

text \<open>Every way the module's state can change: its exported functions and its timer.\<close>

datatype conn_op =
    ConnectionCreated conn_type
  | ConnectionClosed conn_type
  | RecordPingFailure string conn_type "string option" "string option" int int
  | ClearPingFailure string
  | StatsTick int nat nat
  | StartMonitoring

fun conn_step :: "conn_op \<Rightarrow> conn_monitor \<Rightarrow> conn_monitor" where
  "conn_step (ConnectionCreated ty) s = incrementConnectionCreated ty s"
| "conn_step (ConnectionClosed ty) s = incrementConnectionClosed ty s"
| "conn_step (RecordPingFailure i ty org usr now currentTime) s =
     recordPingFailure i ty org usr now currentTime s"
| "conn_step (ClearPingFailure i) s = clearPingFailure i s"
| "conn_step (StatsTick now hostsSize clientsSize) s = connectionStatsTick now hostsSize clientsSize s"
| "conn_step StartMonitoring s = startConnectionMonitoring s"

text \<open>The state of a freshly loaded module; \<open>t0\<close> is the clock at load time.\<close>

definition conn_monitor_init :: "int \<Rightarrow> conn_monitor" where
  "conn_monitor_init t0 =
     \<lparr>totalConnectionsCreated = 0, totalConnectionsClosed = 0, totalHostConnections = 0,
      totalClientConnections = 0, lastConnectionStatsLogged = t0, pingFailures = [],
      lastPingFailureLogTime = t0, clog = []\<rparr>"

section \<open>The persistence layer\<close>

text \<open>
  Modelled from the spec: the status enumeration of the Prisma schema, which is not among
  the sources. The spec's HostRecord has status ONLINE, UNREACHABLE or OFFLINE, and these
  are the values the sources read and write.
\<close>

datatype HostInstanceStatus = ONLINE | UNREACHABLE | OFFLINE

text \<open>
  Modelled from the spec: the \<open>HostInstance\<close> table of the Prisma schema, which is not
  among the sources. A row carries the fields the sources read and the spec's HostRecord
  lists: identifier, organization reference, API-key reference, status and last-updated
  time. The identifier is the table's key, so a well-formed table holds each identifier
  once (\<open>wellFormed\<close>). Rows are kept as a list; a query without ordering returns them
  in table order.
\<close>

record HostInstance =
  id_hi :: string
  organizationId_hi :: string
  apiKeyId_hi :: string
  status :: HostInstanceStatus
  updatedAt :: int

datatype error = DbError | RecordNotFound

text \<open>
  Every call to the persistence layer may throw. The schedule \<open>faults\<close> lists, call by
  call, whether the next call throws; once it is used up every call succeeds.
\<close>

record db =
  hostInstance :: "HostInstance list"
  faults :: "bool list"

definition wellFormed :: "db \<Rightarrow> bool" where
  "wellFormed d = distinct (map id_hi (hostInstance d))"

definition db_call :: "db \<Rightarrow> bool \<times> db" where
  "db_call d = (case faults d of [] \<Rightarrow> (False, d) | f # fs \<Rightarrow> (f, d\<lparr>faults := fs\<rparr>))"

text \<open>
  Whether the schema stamps \<open>updatedAt\<close> on a write through the Prisma client is decided
  by the schema; the parameter \<open>touch\<close> gives the value a written row receives (the
  row's own \<open>updatedAt\<close> when the schema leaves it alone). Raw SQL never goes through it.
\<close>

type_synonym touch = "HostInstance \<Rightarrow> int"

definition rawLivenessProbe :: "db \<Rightarrow> (error + unit) \<times> db" where
  "rawLivenessProbe d =
     (case db_call d of (thrown, d') \<Rightarrow> if thrown then (Inl DbError, d') else (Inr (), d'))"

definition findMany :: "HostInstanceStatus \<Rightarrow> db \<Rightarrow> (error + HostInstance list) \<times> db" where
  "findMany st d =
     (case db_call d of (thrown, d') \<Rightarrow>
        if thrown then (Inl DbError, d')
        else (Inr (filter (\<lambda>r. status r = st) (hostInstance d')), d'))"

definition updateMany ::
    "HostInstanceStatus \<Rightarrow> HostInstanceStatus \<Rightarrow> touch \<Rightarrow> db \<Rightarrow> (error + nat) \<times> db" where
  "updateMany from to touch d =
     (case db_call d of (thrown, d') \<Rightarrow>
        if thrown then (Inl DbError, d')
        else (Inr (length (filter (\<lambda>r. status r = from) (hostInstance d'))),
              d'\<lparr>hostInstance :=
                   map (\<lambda>r. if status r = from then r\<lparr>status := to, updatedAt := touch r\<rparr> else r)
                     (hostInstance d')\<rparr>))"

text \<open>\<open>update\<close> and \<open>delete\<close> address one row by its key and throw when there is none.\<close>

definition updateStatus :: "string \<Rightarrow> HostInstanceStatus \<Rightarrow> touch \<Rightarrow> db \<Rightarrow> (error + unit) \<times> db" where
  "updateStatus i to touch d =
     (case db_call d of (thrown, d') \<Rightarrow>
        if thrown then (Inl DbError, d')
        else if i \<notin> set (map id_hi (hostInstance d')) then (Inl RecordNotFound, d')
        else (Inr (),
              d'\<lparr>hostInstance :=
                   map (\<lambda>r. if id_hi r = i then r\<lparr>status := to, updatedAt := touch r\<rparr> else r)
                     (hostInstance d')\<rparr>))"

definition deleteById :: "string \<Rightarrow> db \<Rightarrow> (error + unit) \<times> db" where
  "deleteById i d =
     (case db_call d of (thrown, d') \<Rightarrow>
        if thrown then (Inl DbError, d')
        else if i \<notin> set (map id_hi (hostInstance d')) then (Inl RecordNotFound, d')
        else (Inr (), d'\<lparr>hostInstance := filter (\<lambda>r. id_hi r \<noteq> i) (hostInstance d')\<rparr>))"

text \<open>
  The raw SQL statements of the sweep. \<open>dbnow\<close> is the store's \<open>now()\<close> for the
  statement, read in milliseconds like every other time here; the interval literals are
  one minute and six hours. A statement either throws and changes nothing or takes effect
  as a whole.
\<close>

definition LIVENESS_TIMEOUT :: int where
  "LIVENESS_TIMEOUT = 60 * 1000"

definition RETENTION_WINDOW :: int where
  "RETENTION_WINDOW = 6 * 60 * 60 * 1000"

definition sqlStatusCounts :: "db \<Rightarrow> (error + (HostInstanceStatus \<times> nat) list) \<times> db" where
  "sqlStatusCounts d =
     (case db_call d of (thrown, d') \<Rightarrow>
        if thrown then (Inl DbError, d')
        else (Inr (filter (\<lambda>(st, n). n > 0)
                (map (\<lambda>st. (st, length (filter (\<lambda>r. status r = st) (hostInstance d'))))
                   [ONLINE, UNREACHABLE, OFFLINE])), d'))"

definition sqlMarkUnreachable :: "int \<Rightarrow> db \<Rightarrow> (error + (string \<times> string) list) \<times> db" where
  "sqlMarkUnreachable dbnow d =
     (case db_call d of (thrown, d') \<Rightarrow>
        if thrown then (Inl DbError, d')
        else (Inr (map (\<lambda>r. (id_hi r, organizationId_hi r))
                (filter (\<lambda>r. status r = ONLINE \<and> updatedAt r < dbnow - LIVENESS_TIMEOUT)
                   (hostInstance d'))),
              d'\<lparr>hostInstance :=
                   map (\<lambda>r. if status r = ONLINE \<and> updatedAt r < dbnow - LIVENESS_TIMEOUT
                             then r\<lparr>status := UNREACHABLE\<rparr> else r)
                     (hostInstance d')\<rparr>))"

definition sqlDeleteOld :: "int \<Rightarrow> db \<Rightarrow> (error + (string \<times> string) list) \<times> db" where
  "sqlDeleteOld dbnow d =
     (case db_call d of (thrown, d') \<Rightarrow>
        if thrown then (Inl DbError, d')
        else (Inr (map (\<lambda>r. (id_hi r, organizationId_hi r))
                (filter (\<lambda>r. (status r = UNREACHABLE \<or> status r = OFFLINE)
                              \<and> updatedAt r < dbnow - RETENTION_WINDOW)
                   (hostInstance d'))),
              d'\<lparr>hostInstance :=
                   filter (\<lambda>r. \<not> ((status r = UNREACHABLE \<or> status r = OFFLINE)
                                  \<and> updatedAt r < dbnow - RETENTION_WINDOW))
                     (hostInstance d')\<rparr>))"

section \<open>The liveness sweep (checkForUnreachableHosts)\<close>

text \<open>
  One cycle issues four statements: the status counts, the demotion, the status counts
  again, the deletion. Each statement has its own \<open>now()\<close>: \<open>now1\<close> for the demotion,
  \<open>now2\<close> for the deletion. Any statement that throws ends the cycle in the catch
  block. The counts only appear in a log payload and are left out of the event.
\<close>

datatype sweep_event =
    CheckingForUnreachableHosts
  | HostsMarkedUnreachable "(string \<times> string) list"
  | OldHostInstancesDeleted nat
  | FailedCheckingForUnreachableHosts error

definition checkForUnreachableHosts :: "int \<Rightarrow> int \<Rightarrow> db \<Rightarrow> sweep_event list \<times> db" where
  "checkForUnreachableHosts now1 now2 d =
     (let lg0 = [CheckingForUnreachableHosts] in
      case sqlStatusCounts d of
        (Inl e, d1) \<Rightarrow> (lg0 @ [FailedCheckingForUnreachableHosts e], d1)
      | (Inr beforeCounts, d1) \<Rightarrow>
      (case sqlMarkUnreachable now1 d1 of
        (Inl e, d2) \<Rightarrow> (lg0 @ [FailedCheckingForUnreachableHosts e], d2)
      | (Inr updateResult, d2) \<Rightarrow>
      (case sqlStatusCounts d2 of
        (Inl e, d3) \<Rightarrow> (lg0 @ [FailedCheckingForUnreachableHosts e], d3)
      | (Inr afterCounts, d3) \<Rightarrow>
      (let lg1 = (if length updateResult > 0 then lg0 @ [HostsMarkedUnreachable updateResult]
                  else lg0) in
       case sqlDeleteOld now2 d3 of
        (Inl e, d4) \<Rightarrow> (lg1 @ [FailedCheckingForUnreachableHosts e], d4)
      | (Inr deleteResult, d4) \<Rightarrow>
          (if length deleteResult > 0 then lg1 @ [OldHostInstancesDeleted (length deleteResult)]
           else lg1, d4)))))"

text \<open>
  Only the catch block logs \<open>FailedCheckingForUnreachableHosts\<close>: a cycle ended there if
  and only if its log holds that event.
\<close>

definition sweepFailed :: "sweep_event list \<Rightarrow> bool" where
  "sweepFailed lg =
     list_ex (\<lambda>e. case e of FailedCheckingForUnreachableHosts x \<Rightarrow> True | _ \<Rightarrow> False) lg"

section \<open>The reconnect reconciler (src/wss/autoReconnect.ts)\<close>

text \<open>
  Modelled from the spec: the type of an entry of \<open>connectedHosts\<close> (declared in
  \<open>wss/processVars\<close>, not among the sources). The spec's ConnectionHandle has an
  identifier, an organization reference, an API-key reference and a transport handle; the
  sources read \<open>apiKeyId\<close> and \<open>ws.id\<close>. The registry is a \<open>Map\<close> from identifier to
  entry.
\<close>

record ConnectedHost =
  apiKeyId_ch :: string
  ws_id :: string

type_synonym registry = "(string \<times> ConnectedHost) list"

definition AUTO_RECONNECT_CHECK_INTERVAL :: int where
  "AUTO_RECONNECT_CHECK_INTERVAL = 15 * 60 * 1000"

definition HOST_UNREACHABLE_THRESHOLD :: int where
  "HOST_UNREACHABLE_THRESHOLD = 30 * 60 * 1000"

text \<open>An element of \<open>hostsToReset\<close>: id, organizationId, apiKeyId, timeSinceUpdateMs.\<close>

type_synonym reset_info = "string \<times> string \<times> string \<times> int"

datatype reconcile_event =
    FoundUnreachableHosts nat
  | ApiKeyHasNewConnection string string string
  | ResetUnreachableHosts "reset_info list"
  | ErrorCheckingUnreachableHosts error

definition apiKeyHasNewConnection :: "registry \<Rightarrow> HostInstance \<Rightarrow> bool" where
  "apiKeyHasNewConnection reg host =
     list_ex (\<lambda>connectedHost. apiKeyId_ch connectedHost = apiKeyId_hi host
                             \<and> ws_id connectedHost \<noteq> id_hi host)
       (map snd reg)"

text \<open>
  The \<open>for\<close> loop over the rows read at the start of the run. A call that throws leaves
  the loop for the catch block; what was resolved before stays resolved.
\<close>

fun resetLoop :: "touch \<Rightarrow> int \<Rightarrow> registry \<Rightarrow> HostInstance list \<Rightarrow> reset_info list
    \<Rightarrow> reconcile_event list \<Rightarrow> db \<Rightarrow> (error + reset_info list) \<times> reconcile_event list \<times> db" where
  "resetLoop touch now reg [] hostsToReset lg d = (Inr hostsToReset, lg, d)"
| "resetLoop touch now reg (host # rest) hostsToReset lg d =
     (let timeSinceUpdate = now - updatedAt host in
      if timeSinceUpdate > HOST_UNREACHABLE_THRESHOLD then
        (let hostsToReset' = hostsToReset @
               [(id_hi host, organizationId_hi host, apiKeyId_hi host, timeSinceUpdate)] in
         if apiKeyHasNewConnection reg host then
           (let lg' = lg @ [ApiKeyHasNewConnection (id_hi host) (apiKeyId_hi host)
                              (organizationId_hi host)] in
            case deleteById (id_hi host) d of
              (Inl e, d') \<Rightarrow> (Inl e, lg', d')
            | (Inr u, d') \<Rightarrow> resetLoop touch now reg rest hostsToReset' lg' d')
         else
           (case updateStatus (id_hi host) OFFLINE touch d of
              (Inl e, d') \<Rightarrow> (Inl e, lg, d')
            | (Inr u, d') \<Rightarrow> resetLoop touch now reg rest hostsToReset' lg d'))
      else resetLoop touch now reg rest hostsToReset lg d)"

definition checkForUnreachableHostsToReset ::
    "touch \<Rightarrow> int \<Rightarrow> registry \<Rightarrow> db \<Rightarrow> reconcile_event list \<times> db" where
  "checkForUnreachableHostsToReset touch now reg d =
     (case findMany UNREACHABLE d of
        (Inl e, d1) \<Rightarrow> ([ErrorCheckingUnreachableHosts e], d1)
      | (Inr unreachableHosts, d1) \<Rightarrow>
          if length unreachableHosts = 0 then ([], d1)
          else
            (case resetLoop touch now reg unreachableHosts []
                    [FoundUnreachableHosts (length unreachableHosts)] d1 of
               (Inl e, lg, d2) \<Rightarrow> (lg @ [ErrorCheckingUnreachableHosts e], d2)
             | (Inr hostsToReset, lg, d2) \<Rightarrow>
                 (if length hostsToReset > 0 then lg @ [ResetUnreachableHosts hostsToReset]
                  else lg, d2)))"

text \<open>
  Only the catch block logs \<open>ErrorCheckingUnreachableHosts\<close>: a run ended there if and
  only if its log holds that event.
\<close>

definition reconcileFailed :: "reconcile_event list \<Rightarrow> bool" where
  "reconcileFailed lg =
     list_ex (\<lambda>e. case e of ErrorCheckingUnreachableHosts x \<Rightarrow> True | _ \<Rightarrow> False) lg"

section \<open>The server health monitor (src/server/utils/serverHealth.ts)\<close>

definition HEALTH_CHECK_INTERVAL :: int where
  "HEALTH_CHECK_INTERVAL = 5 * 60 * 1000"

definition RESTART_THRESHOLD :: nat where
  "RESTART_THRESHOLD = 3"

definition RESTART_COOLDOWN :: int where
  "RESTART_COOLDOWN = 60 * 60 * 1000"

datatype health_event =
    PerformingHealthCheck nat nat
  | DatabaseConnectivityCheckFailed
  | PotentialInconsistency nat nat
  | FoundDisconnectedHosts nat "string list"
  | ErrorDuringHealthCheck error
  | InRestartCooldown int int
  | InitiatingSelfRestart nat
  | ExitingProcess
  | FailedToPrepareRestart error
  | StartingHealthMonitoring int nat int
  | InitialHealthCheckFailed
  | HealthRestored nat
  | HealthCheckFailed nat

text \<open>
  The module's variables, the logger's output, and the timers that will end the process:
  \<open>exitTimers\<close> holds a pair (delay in milliseconds, exit code) for every
  \<open>setTimeout(() => process.exit(code), delay)\<close> issued.
\<close>

record health_monitor =
  healthCheckFailures :: nat
  lastRestartTime :: int
  isServerHealthy :: bool
  hlog :: "health_event list"
  exitTimers :: "(nat \<times> nat) list"

definition health_monitor_init :: health_monitor where
  "health_monitor_init =
     \<lparr>healthCheckFailures = 0, lastRestartTime = 0, isServerHealthy = True,
      hlog = [], exitTimers = []\<rparr>"

text \<open>
  \<open>checkServerHealth\<close> reads \<open>healthCheckFailures\<close> and changes nothing but the log;
  it returns its verdict, the events it logged and the store. \<open>clientsSize\<close> is
  \<open>connectedClients.size\<close>, which is only logged.
\<close>

definition checkServerHealth ::
    "registry \<Rightarrow> nat \<Rightarrow> health_monitor \<Rightarrow> db \<Rightarrow> bool \<times> health_event list \<times> db" where
  "checkServerHealth connectedHosts clientsSize m d =
     (let lg0 = [PerformingHealthCheck (length connectedHosts) clientsSize] in
      case rawLivenessProbe d of
        (Inl e, d1) \<Rightarrow> (False, lg0 @ [DatabaseConnectivityCheckFailed], d1)
      | (Inr u, d1) \<Rightarrow>
      (case findMany ONLINE d1 of
        (Inl e, d2) \<Rightarrow> (False, lg0 @ [ErrorDuringHealthCheck e], d2)
      | (Inr hostInstances, d2) \<Rightarrow>
      (let inconsistent = (length hostInstances > 0 \<and> length connectedHosts = 0);
           lg1 = (if inconsistent
                  then lg0 @ [PotentialInconsistency (length hostInstances) (length connectedHosts)]
                  else lg0) in
       if inconsistent \<and> healthCheckFailures m > 0 then (False, lg1, d2)
       else
         (let connectedHostIds = map fst connectedHosts;
              disconnectedHosts =
                filter (\<lambda>host. status host = ONLINE \<and> id_hi host \<notin> set connectedHostIds)
                  hostInstances;
              lg2 = (if length disconnectedHosts > 0
                     then lg1 @ [FoundDisconnectedHosts (length disconnectedHosts)
                                   (map id_hi disconnectedHosts)]
                     else lg1) in
          if length disconnectedHosts > 3 then (False, lg2, d2) else (True, lg2, d2)))))"

text \<open>\<open>now\<close> is the \<open>Date.now()\<close> read at the entry of \<open>handleUnhealthyServer\<close>.\<close>

definition handleUnhealthyServer ::
    "int \<Rightarrow> touch \<Rightarrow> health_monitor \<Rightarrow> db \<Rightarrow> health_monitor \<times> db" where
  "handleUnhealthyServer now touch m d =
     (if now - lastRestartTime m < RESTART_COOLDOWN then
        (m\<lparr>hlog := hlog m @ [InRestartCooldown ((now - lastRestartTime m) div 60000)
                                 (RESTART_COOLDOWN div 60000)]\<rparr>, d)
      else
        (let m1 = m\<lparr>hlog := hlog m @ [InitiatingSelfRestart (healthCheckFailures m)]\<rparr> in
         case updateMany ONLINE UNREACHABLE touch d of
           (Inl e, d1) \<Rightarrow> (m1\<lparr>hlog := hlog m1 @ [FailedToPrepareRestart e]\<rparr>, d1)
         | (Inr n, d1) \<Rightarrow>
             (m1\<lparr>lastRestartTime := now,
                 hlog := hlog m1 @ [ExitingProcess],
                 exitTimers := exitTimers m1 @ [(1000, 1)]\<rparr>, d1)))"

text \<open>
  \<open>startServerHealthMonitoring\<close> runs one check at once (\<open>initialHealthCheck\<close> is that
  check with its \<open>then\<close> callback) and installs the periodic callback
  (\<open>periodicHealthCheck\<close>), which runs every \<open>HEALTH_CHECK_INTERVAL\<close>.
\<close>

definition initialHealthCheck ::
    "registry \<Rightarrow> nat \<Rightarrow> health_monitor \<Rightarrow> db \<Rightarrow> health_monitor \<times> db" where
  "initialHealthCheck connectedHosts clientsSize m d =
     (let m0 = m\<lparr>hlog := hlog m @ [StartingHealthMonitoring HEALTH_CHECK_INTERVAL
                                      RESTART_THRESHOLD RESTART_COOLDOWN]\<rparr> in
      case checkServerHealth connectedHosts clientsSize m0 d of
        (isHealthy, lg, d1) \<Rightarrow>
          (let m1 = m0\<lparr>hlog := hlog m0 @ lg, isServerHealthy := isHealthy\<rparr> in
           if \<not> isHealthy
           then (m1\<lparr>healthCheckFailures := healthCheckFailures m1 + 1,
                    hlog := hlog m1 @ [InitialHealthCheckFailed]\<rparr>, d1)
           else (m1, d1)))"

definition periodicHealthCheck ::
    "int \<Rightarrow> touch \<Rightarrow> registry \<Rightarrow> nat \<Rightarrow> health_monitor \<Rightarrow> db \<Rightarrow> health_monitor \<times> db" where
  "periodicHealthCheck now touch connectedHosts clientsSize m d =
     (case checkServerHealth connectedHosts clientsSize m d of
        (isHealthy, lg, d1) \<Rightarrow>
          (let m0 = m\<lparr>hlog := hlog m @ lg\<rparr> in
           if isHealthy then
             (let m1 = (if healthCheckFailures m0 > 0
                        then m0\<lparr>hlog := hlog m0 @ [HealthRestored (healthCheckFailures m0)],
                                healthCheckFailures := 0\<rparr>
                        else m0)
              in (m1\<lparr>isServerHealthy := True\<rparr>, d1))
           else
             (let m1 = m0\<lparr>healthCheckFailures := healthCheckFailures m0 + 1,
                         isServerHealthy := False\<rparr>;
                  m2 = m1\<lparr>hlog := hlog m1 @ [HealthCheckFailed (healthCheckFailures m1)]\<rparr>
              in if healthCheckFailures m2 \<ge> RESTART_THRESHOLD
                 then handleUnhealthyServer now touch m2 d1
                 else (m2, d1))))"

text \<open>
  A run of the monitor from process start. Between two checks the transport and the other
  monitors change the registry and the store, so every check gets the world as it then
  is: the clock, the schema's stamp, the registry, the number of clients and the store.
  \<open>monitorRun\<close> returns the monitor's state after the startup check and after each
  periodic check, in order.
\<close>

record world =
  w_now :: int
  w_touch :: touch
  w_hosts :: registry
  w_clients :: nat
  w_db :: db

fun periodicRun :: "health_monitor \<Rightarrow> world list \<Rightarrow> health_monitor list" where
  "periodicRun m [] = []"
| "periodicRun m (w # ws) =
     (let m' = fst (periodicHealthCheck (w_now w) (w_touch w) (w_hosts w) (w_clients w) m (w_db w))
      in m' # periodicRun m' ws)"

definition monitorRun :: "world \<Rightarrow> world list \<Rightarrow> health_monitor list" where
  "monitorRun w0 ws =
     (let m0 = fst (initialHealthCheck (w_hosts w0) (w_clients w0) health_monitor_init (w_db w0))
      in m0 # periodicRun m0 ws)"

text \<open>
  \<open>handleUnhealthyServer\<close> logs one of two events on entry and nothing else logs them, so
  the number of calls made so far is the number of those events in the log.
\<close>

definition handlerEntry :: "health_event \<Rightarrow> bool" where
  "handlerEntry e =
     (case e of InRestartCooldown a b \<Rightarrow> True | InitiatingSelfRestart n \<Rightarrow> True | _ \<Rightarrow> False)"

definition escalationAttempts :: "health_monitor \<Rightarrow> nat" where
  "escalationAttempts m = length (filter handlerEntry (hlog m))"

section \<open>Reference outcome of the reconciler\<close>

text \<open>
  What one pass of the reconciler's loop body leaves of a row: nothing when the row is
  resolved by deletion, the row set to OFFLINE when it is resolved by demotion, the row
  itself when it is not eligible. The loop is proved to compute this row by row.
\<close>

definition resolveRow :: "touch \<Rightarrow> int \<Rightarrow> registry \<Rightarrow> HostInstance \<Rightarrow> HostInstance list" where
  "resolveRow touch now reg r =
     (if status r = UNREACHABLE \<and> now - updatedAt r > HOST_UNREACHABLE_THRESHOLD
      then (if apiKeyHasNewConnection reg r then []
            else [r\<lparr>status := OFFLINE, updatedAt := touch r\<rparr>])
      else [r])"

section \<open>Example states\<close>

text \<open>
  Concrete tables, registries and monitor states at which the theorems are instantiated.
  \<open>row\<close> builds a row of organization \<open>org\<close>.
\<close>

definition client_entry :: PingFailure where
  "client_entry = \<lparr>instanceId = ''c1'', type_pf = Client, organizationId_pf = None,
                    userId_pf = None, failureCount = 5, firstFailureTime = 0, lastFailureTime = 10\<rparr>"

definition host_entry :: PingFailure where
  "host_entry = \<lparr>instanceId = ''h1'', type_pf = Host, organizationId_pf = Some ''org'',
                  userId_pf = None, failureCount = 3, firstFailureTime = 0, lastFailureTime = 10\<rparr>"

definition ping_state :: conn_monitor where
  "ping_state = (conn_monitor_init 0)\<lparr>pingFailures := [(''c1'', client_entry), (''h1'', host_entry)]\<rparr>"

definition row :: "string \<Rightarrow> string \<Rightarrow> HostInstanceStatus \<Rightarrow> int \<Rightarrow> HostInstance" where
  "row i k st t = \<lparr>id_hi = i, organizationId_hi = ''org'', apiKeyId_hi = k, status = st, updatedAt = t\<rparr>"

definition sweep_db :: db where
  "sweep_db = \<lparr>hostInstance = [row ''h1'' ''k1'' ONLINE 0, row ''h2'' ''k2'' ONLINE 100000,
                                row ''h3'' ''k3'' OFFLINE 0], faults = []\<rparr>"

definition stale_db :: db where
  "stale_db = \<lparr>hostInstance = [row ''h1'' ''k1'' ONLINE 0], faults = []\<rparr>"

definition recon_db :: db where
  "recon_db = \<lparr>hostInstance =
      [row ''old1'' ''k1'' UNREACHABLE 0, row ''new1'' ''k1'' ONLINE 1990000,
       row ''old2'' ''k2'' UNREACHABLE 0, row ''young'' ''k3'' UNREACHABLE 1000000], faults = []\<rparr>"

definition recon_reg :: registry where
  "recon_reg = [(''new1'', \<lparr>apiKeyId_ch = ''k1'', ws_id = ''new1''\<rparr>)]"

definition four_online_db :: db where
  "four_online_db = \<lparr>hostInstance =
      [row ''a'' ''ka'' ONLINE 0, row ''b'' ''kb'' ONLINE 0, row ''c'' ''kc'' ONLINE 0,
       row ''d'' ''kd'' ONLINE 0], faults = []\<rparr>"

definition one_online_db :: db where
  "one_online_db = \<lparr>hostInstance = [row ''a'' ''ka'' ONLINE 0], faults = []\<rparr>"

definition failing_world :: "int \<Rightarrow> world" where
  "failing_world t = \<lparr>w_now = t, w_touch = updatedAt, w_hosts = [], w_clients = 0, w_db = four_online_db\<rparr>"

definition failed_thrice :: health_monitor where
  "failed_thrice = \<lparr>healthCheckFailures = 3, lastRestartTime = 0, isServerHealthy = False,
                     hlog = [], exitTimers = []\<rparr>"

definition faulty_db :: db where
  "faulty_db = \<lparr>hostInstance = [row ''a'' ''ka'' ONLINE 0], faults = [True]\<rparr>"

definition healthy_world :: "int \<Rightarrow> world" where
  "healthy_world t = \<lparr>w_now = t, w_touch = updatedAt, w_hosts = [], w_clients = 0,
                       w_db = \<lparr>hostInstance = [], faults = []\<rparr>\<rparr>"

definition restarted_monitor :: health_monitor where
  "restarted_monitor = \<lparr>healthCheckFailures = 3, lastRestartTime = 1700000000000,
                         isServerHealthy = False, hlog = [], exitTimers = [(1000, 1)]\<rparr>"

section \<open>Properties\<close>

subsection \<open>Ping failures and connection counters\<close>

lemma tallyFailures_critical:
  "snd (snd (tallyFailures fs (h, c, crit))) = crit @ filter (\<lambda>f. 3 < failureCount f) fs"
  by (induction fs arbitrary: h c crit) auto

lemma tallyFailures_host:
  "fst (tallyFailures fs (h, c, crit)) = h + length (filter (\<lambda>f. type_pf f = Host) fs)"
  by (induction fs arbitrary: h c crit) auto

lemma tallyFailures_client:
  "fst (snd (tallyFailures fs (h, c, crit))) = c + length (filter (\<lambda>f. type_pf f = Client) fs)"
  by (induction fs arbitrary: h c crit) auto

lemma criticalOf_filter:
  "criticalOf pf = filter (\<lambda>f. 3 < failureCount f) (map snd pf)"
  by (simp add: criticalOf_def tallyFailures_critical)

lemma pingFailures_logPingFailures [simp]:
  "pingFailures (logPingFailures s) = pingFailures s"
  by (simp add: logPingFailures_def Let_def split: prod.splits)

lemma counters_logPingFailures [simp]:
  "totalHostConnections (logPingFailures s) = totalHostConnections s"
  "totalClientConnections (logPingFailures s) = totalClientConnections s"
  "totalConnectionsCreated (logPingFailures s) = totalConnectionsCreated s"
  "totalConnectionsClosed (logPingFailures s) = totalConnectionsClosed s"
  by (simp_all add: logPingFailures_def Let_def split: prod.splits)

lemma clog_logPingFailures:
  "pingFailures s \<noteq> [] \<Longrightarrow>
   clog (logPingFailures s) =
     clog s @
     [PingFailureStatistics (length (pingFailures s))
        (length (filter (\<lambda>f. type_pf f = Host) (map snd (pingFailures s))))
        (length (filter (\<lambda>f. type_pf f = Client) (map snd (pingFailures s))))] @
     (if criticalOf (pingFailures s) = [] then []
      else [CriticalPingFailures (criticalOf (pingFailures s))])"
proof -
  obtain h c crit where t: "tallyFailures (map snd (pingFailures s)) (0, 0, []) = (h, c, crit)"
    by (cases "tallyFailures (map snd (pingFailures s)) (0, 0, [])") auto
  have h: "h = length (filter (\<lambda>f. type_pf f = Host) (map snd (pingFailures s)))"
    using tallyFailures_host [of "map snd (pingFailures s)" 0 0 "[]"] t by simp
  have c: "c = length (filter (\<lambda>f. type_pf f = Client) (map snd (pingFailures s)))"
    using tallyFailures_client [of "map snd (pingFailures s)" 0 0 "[]"] t by simp
  have crit: "crit = criticalOf (pingFailures s)"
    by (simp add: criticalOf_def t)
  assume "pingFailures s \<noteq> []"
  then show ?thesis
    using t h c crit by (simp add: logPingFailures_def Let_def)
qed

text \<open>
  Claim C8. For every entry of the ping-failure map, the flush pass (\<open>logPingFailures\<close>)
  puts the entry on the critical list if and only if its failure count is strictly greater
  than 3, whatever its kind. The pass is one traversal in map order: the critical list is
  the map's values filtered by that test, the statistics event carries the number of
  entries, of host entries and of client entries, and the critical list is logged exactly
  when it is not empty.
\<close>

theorem C8_flush_marks_critical:
  assumes "(k, f) \<in> set (pingFailures s)"
  shows "(f \<in> set (criticalOf (pingFailures s)) \<longleftrightarrow> 3 < failureCount f)
       \<and> criticalOf (pingFailures s) = filter (\<lambda>e. 3 < failureCount e) (map snd (pingFailures s))
       \<and> clog (logPingFailures s) =
           clog s @
           [PingFailureStatistics (length (pingFailures s))
              (length (filter (\<lambda>e. type_pf e = Host) (map snd (pingFailures s))))
              (length (filter (\<lambda>e. type_pf e = Client) (map snd (pingFailures s))))] @
           (if criticalOf (pingFailures s) = [] then []
            else [CriticalPingFailures (criticalOf (pingFailures s))])"
proof -
  have ne: "pingFailures s \<noteq> []" using assms by auto
  have "f \<in> snd ` set (pingFailures s)" using assms by force
  then have "f \<in> set (criticalOf (pingFailures s)) \<longleftrightarrow> 3 < failureCount f"
    by (simp add: criticalOf_filter)
  then show ?thesis
    using clog_logPingFailures [OF ne] criticalOf_filter by simp
qed

text \<open>
  C8 at a map with a client entry that failed five times and a host entry that failed
  three times: only the first is critical.
\<close>

theorem C8_flush_marks_critical_witness:
  "(''c1'', client_entry) \<in> set (pingFailures ping_state)
   \<and> (''h1'', host_entry) \<in> set (pingFailures ping_state)
   \<and> client_entry \<in> set (criticalOf (pingFailures ping_state))
   \<and> host_entry \<notin> set (criticalOf (pingFailures ping_state))
   \<and> clog (logPingFailures ping_state) =
       [PingFailureStatistics 2 1 1, CriticalPingFailures [client_entry]]"
proof -
  have c: "(''c1'', client_entry) \<in> set (pingFailures ping_state)"
    and h: "(''h1'', host_entry) \<in> set (pingFailures ping_state)"
    by (simp_all add: ping_state_def)
  have n: "3 < failureCount client_entry" "\<not> 3 < failureCount host_entry"
    by (simp_all add: client_entry_def host_entry_def)
  have 1: "client_entry \<in> set (criticalOf (pingFailures ping_state))"
    using C8_flush_marks_critical [OF c] n(1) by blast
  have 2: "host_entry \<notin> set (criticalOf (pingFailures ping_state))"
    using C8_flush_marks_critical [OF h] n(2) by blast
  have ty: "type_pf client_entry = Client" "type_pf host_entry = Host"
    by (simp_all add: client_entry_def host_entry_def)
  have st: "clog ping_state = []"
    "pingFailures ping_state = [(''c1'', client_entry), (''h1'', host_entry)]"
    by (simp_all add: ping_state_def conn_monitor_init_def)
  have "criticalOf (pingFailures ping_state) =
          filter (\<lambda>e. 3 < failureCount e) (map snd (pingFailures ping_state))"
    using C8_flush_marks_critical [OF c] by blast
  then have crit: "criticalOf (pingFailures ping_state) = [client_entry]"
    by (simp add: st n)
  have "clog (logPingFailures ping_state) =
           clog ping_state @
           [PingFailureStatistics (length (pingFailures ping_state))
              (length (filter (\<lambda>e. type_pf e = Host) (map snd (pingFailures ping_state))))
              (length (filter (\<lambda>e. type_pf e = Client) (map snd (pingFailures ping_state))))] @
           (if criticalOf (pingFailures ping_state) = [] then []
            else [CriticalPingFailures (criticalOf (pingFailures ping_state))])"
    using C8_flush_marks_critical [OF c] by blast
  then have 3: "clog (logPingFailures ping_state) =
       [PingFailureStatistics 2 1 1, CriticalPingFailures [client_entry]]"
    unfolding crit by (simp add: st ty)
  show ?thesis using c h 1 2 3 by blast
qed

lemma recordPingFailure_pingFailures:
  "pingFailures (recordPingFailure i ty org usr now currentTime s) =
     (case map_of (pingFailures s) i of
        Some existing \<Rightarrow>
          AList.update i (existing\<lparr>failureCount := failureCount existing + 1, lastFailureTime := now\<rparr>)
            (pingFailures s)
      | None \<Rightarrow>
          AList.update i
            \<lparr>instanceId = i, type_pf = ty, organizationId_pf = org, userId_pf = usr,
             failureCount = 1, firstFailureTime = now, lastFailureTime = now\<rparr>
            (pingFailures s))"
  by (simp add: recordPingFailure_def Let_def split: option.splits)

text \<open>
  Claim C9. Calling \<open>recordPingFailure\<close> for an identifier that already has an entry
  increments that entry's \<open>failureCount\<close> and sets its \<open>lastFailureTime\<close> to the call's
  clock reading; the entry's \<open>instanceId\<close>, \<open>type\<close>, \<open>organizationId\<close>, \<open>userId\<close> and
  \<open>firstFailureTime\<close> stay as they were (the kind, organization and user passed to the
  later call are ignored), every other identifier's entry is unchanged, and so is the
  order of the map.
\<close>

theorem C9_existing_entry:
  assumes "map_of (pingFailures s) i = Some e"
  shows "\<exists>e'. map_of (pingFailures (recordPingFailure i ty org usr now currentTime s)) i = Some e'
          \<and> failureCount e' = failureCount e + 1
          \<and> lastFailureTime e' = now
          \<and> instanceId e' = instanceId e
          \<and> type_pf e' = type_pf e
          \<and> organizationId_pf e' = organizationId_pf e
          \<and> userId_pf e' = userId_pf e
          \<and> firstFailureTime e' = firstFailureTime e
          \<and> (\<forall>j. j \<noteq> i \<longrightarrow>
                map_of (pingFailures (recordPingFailure i ty org usr now currentTime s)) j =
                map_of (pingFailures s) j)
          \<and> map fst (pingFailures (recordPingFailure i ty org usr now currentTime s)) =
              map fst (pingFailures s)"
proof -
  have k: "i \<in> fst ` set (pingFailures s)"
    using assms by (auto dest: map_of_SomeD intro: rev_image_eqI)
  show ?thesis
    using assms k
    by (simp add: recordPingFailure_pingFailures update_conv' update_keys)
qed

text \<open>
  C9 at a map holding a host entry for \<open>h1\<close>: a later call that names \<open>h1\<close> a client
  of another organization only bumps the count and the last failure time.
\<close>

theorem C9_existing_entry_witness:
  "map_of (pingFailures ping_state) ''h1'' = Some host_entry
   \<and> map_of (pingFailures (recordPingFailure ''h1'' Client (Some ''other'') (Some ''u'') 20 21
        ping_state)) ''h1'' = Some (host_entry\<lparr>failureCount := 4, lastFailureTime := 20\<rparr>)
   \<and> map_of (pingFailures (recordPingFailure ''h1'' Client (Some ''other'') (Some ''u'') 20 21
        ping_state)) ''c1'' = Some client_entry"
proof -
  have e: "map_of (pingFailures ping_state) ''h1'' = Some host_entry"
    by (simp add: ping_state_def)
  obtain e' where e':
    "map_of (pingFailures (recordPingFailure ''h1'' Client (Some ''other'') (Some ''u'') 20 21
        ping_state)) ''h1'' = Some e'"
    "failureCount e' = failureCount host_entry + 1" "lastFailureTime e' = 20"
    "instanceId e' = instanceId host_entry" "type_pf e' = type_pf host_entry"
    "organizationId_pf e' = organizationId_pf host_entry" "userId_pf e' = userId_pf host_entry"
    "firstFailureTime e' = firstFailureTime host_entry"
    and other: "\<forall>j. j \<noteq> ''h1'' \<longrightarrow>
      map_of (pingFailures (recordPingFailure ''h1'' Client (Some ''other'') (Some ''u'') 20 21
        ping_state)) j = map_of (pingFailures ping_state) j"
    using C9_existing_entry [OF e, of Client "Some ''other''" "Some ''u''" 20 21] by blast
  have "e' = host_entry\<lparr>failureCount := 4, lastFailureTime := 20\<rparr>"
    using e'(2-8) by (cases e') (simp add: host_entry_def)
  moreover have "map_of (pingFailures (recordPingFailure ''h1'' Client (Some ''other'') (Some ''u'') 20 21
        ping_state)) ''c1'' = Some client_entry"
    using other by (simp add: ping_state_def)
  ultimately show ?thesis using e e'(1) by simp
qed

text \<open>
  Claim C10. \<open>totalHostConnections\<close> and \<open>totalClientConnections\<close> never decrease under
  any operation of the module. \<open>incrementConnectionCreated\<close> increments the counter of its
  kind and leaves the other; \<open>incrementConnectionClosed\<close> increments only
  \<open>totalConnectionsClosed\<close> and does the same for either kind. The per-kind counters
  therefore count connections ever created.
\<close>

theorem C10_per_kind_counters_monotone:
  "totalHostConnections s \<le> totalHostConnections (conn_step op s)
   \<and> totalClientConnections s \<le> totalClientConnections (conn_step op s)
   \<and> totalHostConnections (incrementConnectionCreated Host s) = totalHostConnections s + 1
   \<and> totalClientConnections (incrementConnectionCreated Host s) = totalClientConnections s
   \<and> totalClientConnections (incrementConnectionCreated Client s) = totalClientConnections s + 1
   \<and> totalHostConnections (incrementConnectionCreated Client s) = totalHostConnections s
   \<and> incrementConnectionClosed ty s = s\<lparr>totalConnectionsClosed := totalConnectionsClosed s + 1\<rparr>
   \<and> incrementConnectionClosed Host s = incrementConnectionClosed Client s"
  by (cases op)
     (simp_all add: incrementConnectionCreated_def incrementConnectionClosed_def
        recordPingFailure_def clearPingFailure_def connectionStatsTick_def
        startConnectionMonitoring_def Let_def split: option.splits)

text \<open>
  C10 at a fresh module: a host connection created and then closed leaves the host
  counter at 1.
\<close>

theorem C10_per_kind_counters_monotone_witness:
  "totalHostConnections (conn_monitor_init 0) = 0
   \<and> totalHostConnections (conn_step (ConnectionClosed Host)
        (conn_step (ConnectionCreated Host) (conn_monitor_init 0))) = 1
   \<and> totalClientConnections (conn_step (ConnectionClosed Host)
        (conn_step (ConnectionCreated Host) (conn_monitor_init 0))) = 0"
proof -
  have "totalHostConnections (incrementConnectionCreated Host (conn_monitor_init 0)) =
        totalHostConnections (conn_monitor_init 0) + 1"
    and "totalClientConnections (incrementConnectionCreated Host (conn_monitor_init 0)) =
        totalClientConnections (conn_monitor_init 0)"
    and "incrementConnectionClosed Host (incrementConnectionCreated Host (conn_monitor_init 0)) =
        (incrementConnectionCreated Host (conn_monitor_init 0))
          \<lparr>totalConnectionsClosed :=
             totalConnectionsClosed (incrementConnectionCreated Host (conn_monitor_init 0)) + 1\<rparr>"
    using C10_per_kind_counters_monotone [of "conn_monitor_init 0" "ConnectionCreated Host" Host]
          C10_per_kind_counters_monotone
            [of "incrementConnectionCreated Host (conn_monitor_init 0)" "ConnectionCreated Host" Host]
    by simp_all
  then show ?thesis by (simp add: conn_monitor_init_def)
qed

subsection \<open>The liveness sweep\<close>

lemma db_call_rows: "hostInstance (snd (db_call d)) = hostInstance d"
  by (simp add: db_call_def split: list.splits)

lemma db_call_update:
  "db_call (d\<lparr>hostInstance := X\<rparr>) = (fst (db_call d), (snd (db_call d))\<lparr>hostInstance := X\<rparr>)"
  by (simp add: db_call_def split: list.splits)

lemma db_call_no_faults: "faults d = [] \<Longrightarrow> db_call d = (False, d)"
  by (simp add: db_call_def)

lemma sweep_unfold:
  "checkForUnreachableHosts now1 now2 d =
     (let c1 = db_call d; c2 = db_call (snd c1); c3 = db_call (snd c2); c4 = db_call (snd c3);
          marked = filter (\<lambda>r. status r = ONLINE \<and> updatedAt r < now1 - LIVENESS_TIMEOUT)
                     (hostInstance d);
          mid = map (\<lambda>r. if status r = ONLINE \<and> updatedAt r < now1 - LIVENESS_TIMEOUT
                           then r\<lparr>status := UNREACHABLE\<rparr> else r) (hostInstance d);
          gone = filter (\<lambda>r. (status r = UNREACHABLE \<or> status r = OFFLINE)
                              \<and> updatedAt r < now2 - RETENTION_WINDOW) mid;
          lg1 = [CheckingForUnreachableHosts]
                @ (if marked = [] then []
                   else [HostsMarkedUnreachable (map (\<lambda>r. (id_hi r, organizationId_hi r)) marked)])
      in if fst c1 then ([CheckingForUnreachableHosts, FailedCheckingForUnreachableHosts DbError], snd c1)
         else if fst c2 then ([CheckingForUnreachableHosts, FailedCheckingForUnreachableHosts DbError], snd c2)
         else if fst c3 then ([CheckingForUnreachableHosts, FailedCheckingForUnreachableHosts DbError],
                              (snd c3)\<lparr>hostInstance := mid\<rparr>)
         else if fst c4 then (lg1 @ [FailedCheckingForUnreachableHosts DbError],
                              (snd c4)\<lparr>hostInstance := mid\<rparr>)
         else (lg1 @ (if gone = [] then [] else [OldHostInstancesDeleted (length gone)]),
               (snd c4)\<lparr>hostInstance :=
                  filter (\<lambda>r. \<not> ((status r = UNREACHABLE \<or> status r = OFFLINE)
                             \<and> updatedAt r < now2 - RETENTION_WINDOW)) mid\<rparr>))"
  by (simp add: checkForUnreachableHosts_def sqlStatusCounts_def sqlMarkUnreachable_def
      sqlDeleteOld_def Let_def db_call_update db_call_rows split_beta del: length_filter_map)

lemma sweep_rows_any:
  "hostInstance (snd (checkForUnreachableHosts now1 now2 d)) = hostInstance d
   \<or> hostInstance (snd (checkForUnreachableHosts now1 now2 d)) =
       map (\<lambda>r. if status r = ONLINE \<and> updatedAt r < now1 - LIVENESS_TIMEOUT
                 then r\<lparr>status := UNREACHABLE\<rparr> else r) (hostInstance d)
   \<or> hostInstance (snd (checkForUnreachableHosts now1 now2 d)) =
       filter (\<lambda>r. \<not> ((status r = UNREACHABLE \<or> status r = OFFLINE)
                       \<and> updatedAt r < now2 - RETENTION_WINDOW))
         (map (\<lambda>r. if status r = ONLINE \<and> updatedAt r < now1 - LIVENESS_TIMEOUT
                    then r\<lparr>status := UNREACHABLE\<rparr> else r) (hostInstance d))"
  by (simp add: sweep_unfold Let_def db_call_rows)

lemma sweep_completes:
  "faults d = [] \<Longrightarrow> \<not> sweepFailed (fst (checkForUnreachableHosts now1 now2 d))"
  by (simp add: sweep_unfold Let_def db_call_no_faults sweepFailed_def)

lemma sweep_rows:
  assumes "\<not> sweepFailed (fst (checkForUnreachableHosts now1 now2 d))"
  shows "hostInstance (snd (checkForUnreachableHosts now1 now2 d)) =
     filter (\<lambda>r. \<not> ((status r = UNREACHABLE \<or> status r = OFFLINE)
                     \<and> updatedAt r < now2 - RETENTION_WINDOW))
       (map (\<lambda>r. if status r = ONLINE \<and> updatedAt r < now1 - LIVENESS_TIMEOUT
                  then r\<lparr>status := UNREACHABLE\<rparr> else r) (hostInstance d))"
  using assms by (simp add: sweep_unfold Let_def sweepFailed_def split: if_splits)

lemma sweep_log:
  assumes "\<not> sweepFailed (fst (checkForUnreachableHosts now1 now2 d))"
  shows "fst (checkForUnreachableHosts now1 now2 d) =
     [CheckingForUnreachableHosts]
     @ (if filter (\<lambda>r. status r = ONLINE \<and> updatedAt r < now1 - LIVENESS_TIMEOUT)
             (hostInstance d) = [] then []
        else [HostsMarkedUnreachable (map (\<lambda>r. (id_hi r, organizationId_hi r))
                (filter (\<lambda>r. status r = ONLINE \<and> updatedAt r < now1 - LIVENESS_TIMEOUT)
                   (hostInstance d)))])
     @ (if filter (\<lambda>r. (status r = UNREACHABLE \<or> status r = OFFLINE)
                         \<and> updatedAt r < now2 - RETENTION_WINDOW)
             (map (\<lambda>r. if status r = ONLINE \<and> updatedAt r < now1 - LIVENESS_TIMEOUT
                        then r\<lparr>status := UNREACHABLE\<rparr> else r) (hostInstance d)) = [] then []
        else [OldHostInstancesDeleted (length
               (filter (\<lambda>r. (status r = UNREACHABLE \<or> status r = OFFLINE)
                         \<and> updatedAt r < now2 - RETENTION_WINDOW)
                 (map (\<lambda>r. if status r = ONLINE \<and> updatedAt r < now1 - LIVENESS_TIMEOUT
                        then r\<lparr>status := UNREACHABLE\<rparr> else r) (hostInstance d))))])"
  using assms by (simp add: sweep_unfold Let_def sweepFailed_def split: if_splits del: length_filter_map)

text \<open>
  Claim C5. A sweep cycle ends in its catch block only if a statement throws; when none
  does (in particular under an empty fault schedule) the rows moved to UNREACHABLE are
  exactly the rows that were ONLINE with a last update more than the liveness timeout (one
  minute) before the store's clock \<open>now1\<close>: such a row no longer appears as it was, and
  appears with status UNREACHABLE unless the deletion of the same cycle removed it for
  being older than the retention window; and the list reported as marked unreachable is
  the list of those rows. In every cycle, completed or not, no other row is moved: a row
  that was not a stale ONLINE row is still there unchanged or was removed by the deletion,
  and every row of the resulting table is a row of the old table or a stale ONLINE row
  demoted. The monitor's own clock plays no part.
\<close>

theorem C5_sweep_marks_stale_online:
  assumes "checkForUnreachableHosts now1 now2 d = (lg, d')"
  shows "(faults d = [] \<longrightarrow> \<not> sweepFailed lg)
       \<and> (\<not> sweepFailed lg \<longrightarrow>
           (\<forall>r \<in> set (hostInstance d).
              status r = ONLINE \<and> LIVENESS_TIMEOUT < now1 - updatedAt r \<longrightarrow>
                 r \<notin> set (hostInstance d')
                 \<and> (r\<lparr>status := UNREACHABLE\<rparr> \<in> set (hostInstance d')
                    \<or> updatedAt r < now2 - RETENTION_WINDOW))
         \<and> (\<forall>ms. HostsMarkedUnreachable ms \<in> set lg \<longleftrightarrow>
              ms \<noteq> [] \<and>
              ms = map (\<lambda>r. (id_hi r, organizationId_hi r))
                     (filter (\<lambda>r. status r = ONLINE \<and> LIVENESS_TIMEOUT < now1 - updatedAt r)
                        (hostInstance d))))
       \<and> (\<forall>r \<in> set (hostInstance d).
              \<not> (status r = ONLINE \<and> LIVENESS_TIMEOUT < now1 - updatedAt r) \<longrightarrow>
                 r \<in> set (hostInstance d')
                 \<or> ((status r = UNREACHABLE \<or> status r = OFFLINE)
                     \<and> updatedAt r < now2 - RETENTION_WINDOW))
       \<and> (\<forall>r' \<in> set (hostInstance d').
              r' \<in> set (hostInstance d)
              \<or> (\<exists>r \<in> set (hostInstance d).
                    status r = ONLINE \<and> LIVENESS_TIMEOUT < now1 - updatedAt r
                    \<and> r' = r\<lparr>status := UNREACHABLE\<rparr>))"
proof -
  let ?stale = "\<lambda>r. status r = ONLINE \<and> updatedAt r < now1 - LIVENESS_TIMEOUT"
  let ?old = "\<lambda>r. (status r = UNREACHABLE \<or> status r = OFFLINE) \<and> updatedAt r < now2 - RETENTION_WINDOW"
  let ?mid = "map (\<lambda>r. if ?stale r then r\<lparr>status := UNREACHABLE\<rparr> else r) (hostInstance d)"
  have conv: "\<And>r. (LIVENESS_TIMEOUT < now1 - updatedAt r) = (updatedAt r < now1 - LIVENESS_TIMEOUT)"
    by auto
  have d': "d' = snd (checkForUnreachableHosts now1 now2 d)"
    and lg': "lg = fst (checkForUnreachableHosts now1 now2 d)"
    using assms by simp_all
  have any: "hostInstance d' = hostInstance d \<or> hostInstance d' = ?mid
             \<or> hostInstance d' = filter (\<lambda>r. \<not> ?old r) ?mid"
    unfolding d' by (rule sweep_rows_any)
  have A: "faults d = [] \<longrightarrow> \<not> sweepFailed lg"
    unfolding lg' using sweep_completes by blast
  have B: "\<not> sweepFailed lg \<longrightarrow>
           (\<forall>r \<in> set (hostInstance d).
              status r = ONLINE \<and> LIVENESS_TIMEOUT < now1 - updatedAt r \<longrightarrow>
                 r \<notin> set (hostInstance d')
                 \<and> (r\<lparr>status := UNREACHABLE\<rparr> \<in> set (hostInstance d')
                    \<or> updatedAt r < now2 - RETENTION_WINDOW))
         \<and> (\<forall>ms. HostsMarkedUnreachable ms \<in> set lg \<longleftrightarrow>
              ms \<noteq> [] \<and>
              ms = map (\<lambda>r. (id_hi r, organizationId_hi r))
                     (filter (\<lambda>r. status r = ONLINE \<and> LIVENESS_TIMEOUT < now1 - updatedAt r)
                        (hostInstance d)))"
  proof
    assume "\<not> sweepFailed lg"
    then have fin: "\<not> sweepFailed (fst (checkForUnreachableHosts now1 now2 d))"
      using lg' by simp
    have rows: "hostInstance d' = filter (\<lambda>r. \<not> ?old r) ?mid"
      unfolding d' using sweep_rows [OF fin] .
    have lg: "lg = [CheckingForUnreachableHosts]
          @ (if filter ?stale (hostInstance d) = [] then []
             else [HostsMarkedUnreachable (map (\<lambda>r. (id_hi r, organizationId_hi r)) (filter ?stale (hostInstance d)))])
          @ (if filter ?old ?mid = [] then [] else [OldHostInstancesDeleted (length (filter ?old ?mid))])"
      unfolding lg' using sweep_log [OF fin] .
    have 1: "\<forall>r \<in> set (hostInstance d).
              status r = ONLINE \<and> LIVENESS_TIMEOUT < now1 - updatedAt r \<longrightarrow>
                 r \<notin> set (hostInstance d')
                 \<and> (r\<lparr>status := UNREACHABLE\<rparr> \<in> set (hostInstance d')
                    \<or> updatedAt r < now2 - RETENTION_WINDOW)"
      unfolding rows conv by (auto simp: image_iff)
    have 2: "\<forall>ms. HostsMarkedUnreachable ms \<in> set lg \<longleftrightarrow>
            ms \<noteq> [] \<and>
            ms = map (\<lambda>r. (id_hi r, organizationId_hi r))
                   (filter (\<lambda>r. status r = ONLINE \<and> LIVENESS_TIMEOUT < now1 - updatedAt r)
                      (hostInstance d))"
      unfolding lg conv by auto
    from 1 2 show "(\<forall>r \<in> set (hostInstance d).
              status r = ONLINE \<and> LIVENESS_TIMEOUT < now1 - updatedAt r \<longrightarrow>
                 r \<notin> set (hostInstance d')
                 \<and> (r\<lparr>status := UNREACHABLE\<rparr> \<in> set (hostInstance d')
                    \<or> updatedAt r < now2 - RETENTION_WINDOW))
         \<and> (\<forall>ms. HostsMarkedUnreachable ms \<in> set lg \<longleftrightarrow>
              ms \<noteq> [] \<and>
              ms = map (\<lambda>r. (id_hi r, organizationId_hi r))
                     (filter (\<lambda>r. status r = ONLINE \<and> LIVENESS_TIMEOUT < now1 - updatedAt r)
                        (hostInstance d)))" by blast
  qed
  have C: "\<forall>r \<in> set (hostInstance d).
              \<not> (status r = ONLINE \<and> LIVENESS_TIMEOUT < now1 - updatedAt r) \<longrightarrow>
                 r \<in> set (hostInstance d')
                 \<or> ((status r = UNREACHABLE \<or> status r = OFFLINE)
                     \<and> updatedAt r < now2 - RETENTION_WINDOW)"
    using any unfolding conv by (auto simp: image_iff)
  have D: "\<forall>r' \<in> set (hostInstance d').
              r' \<in> set (hostInstance d)
              \<or> (\<exists>r \<in> set (hostInstance d).
                    status r = ONLINE \<and> LIVENESS_TIMEOUT < now1 - updatedAt r
                    \<and> r' = r\<lparr>status := UNREACHABLE\<rparr>)"
    using any unfolding conv by auto
  from A B C D show ?thesis by blast
qed

text \<open>
  C5 at a table with an ONLINE row two minutes old, an ONLINE row twenty seconds old and
  an OFFLINE row: only the first is demoted.
\<close>

theorem C5_sweep_marks_stale_online_witness:
  "faults sweep_db = []
   \<and> checkForUnreachableHosts 120000 120001 sweep_db =
       ([CheckingForUnreachableHosts, HostsMarkedUnreachable [(''h1'', ''org'')]],
        \<lparr>hostInstance = [row ''h1'' ''k1'' UNREACHABLE 0, row ''h2'' ''k2'' ONLINE 100000,
                         row ''h3'' ''k3'' OFFLINE 0], faults = []\<rparr>)
   \<and> \<not> sweepFailed (fst (checkForUnreachableHosts 120000 120001 sweep_db))
   \<and> row ''h1'' ''k1'' ONLINE 0 \<notin> set (hostInstance (snd (checkForUnreachableHosts 120000 120001 sweep_db)))
   \<and> row ''h2'' ''k2'' ONLINE 100000 \<in> set (hostInstance (snd (checkForUnreachableHosts 120000 120001 sweep_db)))"
proof -
  have f: "faults sweep_db = []" by (simp add: sweep_db_def)
  have run: "checkForUnreachableHosts 120000 120001 sweep_db =
       ([CheckingForUnreachableHosts, HostsMarkedUnreachable [(''h1'', ''org'')]],
        \<lparr>hostInstance = [row ''h1'' ''k1'' UNREACHABLE 0, row ''h2'' ''k2'' ONLINE 100000,
                         row ''h3'' ''k3'' OFFLINE 0], faults = []\<rparr>)"
    by (simp add: checkForUnreachableHosts_def sqlStatusCounts_def sqlMarkUnreachable_def
      sqlDeleteOld_def db_call_def Let_def sweep_db_def row_def LIVENESS_TIMEOUT_def RETENTION_WINDOW_def)
  have m: "row ''h1'' ''k1'' ONLINE 0 \<in> set (hostInstance sweep_db)"
          "row ''h2'' ''k2'' ONLINE 100000 \<in> set (hostInstance sweep_db)"
    by (simp_all add: sweep_db_def)
  note th0 = C5_sweep_marks_stale_online [OF run]
  from th0 f have ok: "\<not> sweepFailed [CheckingForUnreachableHosts, HostsMarkedUnreachable [(''h1'', ''org'')]]"
    by blast
  from th0 ok m(1) have "row ''h1'' ''k1'' ONLINE 0 \<notin> set (hostInstance (snd (checkForUnreachableHosts 120000 120001 sweep_db)))"
    unfolding run by (simp add: row_def LIVENESS_TIMEOUT_def)
  moreover from th0 ok m(2) have "row ''h2'' ''k2'' ONLINE 100000 \<in> set (hostInstance (snd (checkForUnreachableHosts 120000 120001 sweep_db)))"
    unfolding run by (simp add: row_def LIVENESS_TIMEOUT_def)
  ultimately show ?thesis using f run ok by simp
qed

lemma key_unique:
  "distinct (map id_hi rows) \<Longrightarrow> x \<in> set rows \<Longrightarrow> r \<in> set rows \<Longrightarrow> id_hi x = id_hi r \<Longrightarrow> x = r"
  by (auto simp: distinct_map dest: inj_onD)

text \<open>
  Claim C6 as stated says that a sweep never deletes a row whose status is ONLINE. A row
  that is ONLINE and seven hours old at the start of a cycle is demoted by the cycle's
  first statement and deleted by its second.
\<close>

theorem C6_online_row_deleted_counterexample:
  "status (row ''h1'' ''k1'' ONLINE 0) = ONLINE
   \<and> row ''h1'' ''k1'' ONLINE 0 \<in> set (hostInstance stale_db)
   \<and> hostInstance (snd (checkForUnreachableHosts 25200000 25200000 stale_db)) = []"
  by (simp add: checkForUnreachableHosts_def sqlStatusCounts_def sqlMarkUnreachable_def
      sqlDeleteOld_def db_call_def Let_def stale_db_def row_def LIVENESS_TIMEOUT_def
      RETENTION_WINDOW_def)

text \<open>
  Claim C6, amended. On a table with unique identifiers, a sweep cycle that does not end
  in its catch block deletes every row whose last update is older than the retention
  window (six hours before the store's clock \<open>now2\<close>) and whose status at the time of the
  deletion is UNREACHABLE or OFFLINE, that is: every such row that was UNREACHABLE or
  OFFLINE, and every such row that was ONLINE and had just been demoted by the same cycle.
  No cycle, completed or not, deletes any other row; in particular rows not older than
  the window are never deleted.
\<close>

theorem C6_sweep_deletes:
  assumes "wellFormed d"
      and "checkForUnreachableHosts now1 now2 d = (lg, d')"
  shows "(faults d = [] \<longrightarrow> \<not> sweepFailed lg)
       \<and> (\<not> sweepFailed lg \<longrightarrow>
           (\<forall>r \<in> set (hostInstance d).
              updatedAt r < now2 - RETENTION_WINDOW
              \<and> (status r = UNREACHABLE \<or> status r = OFFLINE
                 \<or> (status r = ONLINE \<and> LIVENESS_TIMEOUT < now1 - updatedAt r))
              \<longrightarrow> id_hi r \<notin> set (map id_hi (hostInstance d'))))
       \<and> (\<forall>r \<in> set (hostInstance d).
              id_hi r \<notin> set (map id_hi (hostInstance d')) \<longrightarrow>
              updatedAt r < now2 - RETENTION_WINDOW
              \<and> (status r = UNREACHABLE \<or> status r = OFFLINE
                 \<or> (status r = ONLINE \<and> LIVENESS_TIMEOUT < now1 - updatedAt r)))
       \<and> (\<forall>r \<in> set (hostInstance d).
              now2 - updatedAt r \<le> RETENTION_WINDOW \<longrightarrow>
              id_hi r \<in> set (map id_hi (hostInstance d')))"
proof -
  define old where "old = (\<lambda>r::HostInstance. (status r = UNREACHABLE \<or> status r = OFFLINE)
                                \<and> updatedAt r < now2 - RETENTION_WINDOW)"
  define demote where "demote = (\<lambda>r::HostInstance. if status r = ONLINE \<and> updatedAt r < now1 - LIVENESS_TIMEOUT
                                      then r\<lparr>status := UNREACHABLE\<rparr> else r)"
  have d': "d' = snd (checkForUnreachableHosts now1 now2 d)"
    and lg': "lg = fst (checkForUnreachableHosts now1 now2 d)"
    using assms(2) by simp_all
  have any: "hostInstance d' = hostInstance d \<or> hostInstance d' = map demote (hostInstance d)
             \<or> hostInstance d' = filter (\<lambda>r. \<not> old r) (map demote (hostInstance d))"
    unfolding d' old_def demote_def by (rule sweep_rows_any)
  have dist: "distinct (map id_hi (hostInstance d))"
    using assms(1) by (simp add: wellFormed_def)
  have id_demote: "\<And>x. id_hi (demote x) = id_hi x" by (simp add: demote_def)
  have ids_mid: "map id_hi (map demote (hostInstance d)) = map id_hi (hostInstance d)"
    by (simp add: id_demote)
  have old_demote: "\<And>r. old (demote r) \<longleftrightarrow>
      updatedAt r < now2 - RETENTION_WINDOW
      \<and> (status r = UNREACHABLE \<or> status r = OFFLINE
         \<or> (status r = ONLINE \<and> LIVENESS_TIMEOUT < now1 - updatedAt r))"
    by (auto simp: old_def demote_def)
  have fresh: "\<And>r. now2 - updatedAt r \<le> RETENTION_WINDOW \<Longrightarrow> \<not> old (demote r)"
    by (auto simp: old_def demote_def)
  have kept_filtered: "id_hi r \<in> set (map id_hi (filter (\<lambda>r. \<not> old r) (map demote (hostInstance d))))
      \<longleftrightarrow> \<not> old (demote r)" if r: "r \<in> set (hostInstance d)" for r
  proof
    assume "id_hi r \<in> set (map id_hi (filter (\<lambda>r. \<not> old r) (map demote (hostInstance d))))"
    then obtain x where x: "x \<in> set (hostInstance d)" "\<not> old (demote x)" "id_hi (demote x) = id_hi r"
      by auto
    from x(3) have "id_hi x = id_hi r" by (simp add: id_demote)
    from key_unique [OF dist x(1) r this] have "x = r" .
    with x(2) show "\<not> old (demote r)" by simp
  next
    assume "\<not> old (demote r)"
    with r have "demote r \<in> set (filter (\<lambda>r. \<not> old r) (map demote (hostInstance d)))" by auto
    then have "id_hi (demote r) \<in> set (map id_hi (filter (\<lambda>r. \<not> old r) (map demote (hostInstance d))))"
      by force
    then show "id_hi r \<in> set (map id_hi (filter (\<lambda>r. \<not> old r) (map demote (hostInstance d))))"
      by (simp add: id_demote)
  qed
  have present: "id_hi r \<in> set (map id_hi (hostInstance d))" if "r \<in> set (hostInstance d)" for r
    using that by force
  have A: "faults d = [] \<longrightarrow> \<not> sweepFailed lg"
    unfolding lg' using sweep_completes by blast
  have B: "\<not> sweepFailed lg \<longrightarrow>
           (\<forall>r \<in> set (hostInstance d).
              updatedAt r < now2 - RETENTION_WINDOW
              \<and> (status r = UNREACHABLE \<or> status r = OFFLINE
                 \<or> (status r = ONLINE \<and> LIVENESS_TIMEOUT < now1 - updatedAt r))
              \<longrightarrow> id_hi r \<notin> set (map id_hi (hostInstance d')))"
  proof
    assume "\<not> sweepFailed lg"
    then have fin: "\<not> sweepFailed (fst (checkForUnreachableHosts now1 now2 d))"
      using lg' by simp
    have rows: "hostInstance d' = filter (\<lambda>r. \<not> old r) (map demote (hostInstance d))"
      unfolding d' old_def demote_def using sweep_rows [OF fin] .
    show "\<forall>r \<in> set (hostInstance d).
              updatedAt r < now2 - RETENTION_WINDOW
              \<and> (status r = UNREACHABLE \<or> status r = OFFLINE
                 \<or> (status r = ONLINE \<and> LIVENESS_TIMEOUT < now1 - updatedAt r))
              \<longrightarrow> id_hi r \<notin> set (map id_hi (hostInstance d'))"
      unfolding rows using kept_filtered old_demote by blast
  qed
  have C: "\<forall>r \<in> set (hostInstance d).
              id_hi r \<notin> set (map id_hi (hostInstance d')) \<longrightarrow>
              updatedAt r < now2 - RETENTION_WINDOW
              \<and> (status r = UNREACHABLE \<or> status r = OFFLINE
                 \<or> (status r = ONLINE \<and> LIVENESS_TIMEOUT < now1 - updatedAt r))"
  proof (intro ballI impI)
    fix r assume r: "r \<in> set (hostInstance d)"
      and gone: "id_hi r \<notin> set (map id_hi (hostInstance d'))"
    from any gone present [OF r] ids_mid
    have "hostInstance d' = filter (\<lambda>r. \<not> old r) (map demote (hostInstance d))"
      by metis
    with gone kept_filtered [OF r] have "old (demote r)" by simp
    then show "updatedAt r < now2 - RETENTION_WINDOW
              \<and> (status r = UNREACHABLE \<or> status r = OFFLINE
                 \<or> (status r = ONLINE \<and> LIVENESS_TIMEOUT < now1 - updatedAt r))"
      using old_demote by blast
  qed
  have D: "\<forall>r \<in> set (hostInstance d).
              now2 - updatedAt r \<le> RETENTION_WINDOW \<longrightarrow>
              id_hi r \<in> set (map id_hi (hostInstance d'))"
  proof (intro ballI impI)
    fix r assume r: "r \<in> set (hostInstance d)" and f: "now2 - updatedAt r \<le> RETENTION_WINDOW"
    show "id_hi r \<in> set (map id_hi (hostInstance d'))"
    proof (rule ccontr)
      assume "id_hi r \<notin> set (map id_hi (hostInstance d'))"
      with C r have "updatedAt r < now2 - RETENTION_WINDOW" by blast
      with f show False by simp
    qed
  qed
  from A B C D show ?thesis by blast
qed

text \<open>
  C6 amended, at the table of the C5 example: at exactly six hours the OFFLINE row of age
  six hours is kept; later all three rows go.
\<close>

theorem C6_sweep_deletes_witness:
  "faults sweep_db = [] \<and> wellFormed sweep_db
   \<and> checkForUnreachableHosts 30000000 30000000 sweep_db =
       ([CheckingForUnreachableHosts,
         HostsMarkedUnreachable [(''h1'', ''org''), (''h2'', ''org'')],
         OldHostInstancesDeleted 3],
        \<lparr>hostInstance = [], faults = []\<rparr>)
   \<and> \<not> sweepFailed (fst (checkForUnreachableHosts 21600000 21600000 sweep_db))
   \<and> ''h3'' \<in> set (map id_hi (hostInstance (snd (checkForUnreachableHosts 21600000 21600000 sweep_db))))"
proof -
  have f: "faults sweep_db = []" and wf: "wellFormed sweep_db"
    by (simp_all add: sweep_db_def wellFormed_def row_def)
  obtain lg d' where run: "checkForUnreachableHosts 21600000 21600000 sweep_db = (lg, d')"
    by (cases "checkForUnreachableHosts 21600000 21600000 sweep_db") auto
  have m: "row ''h3'' ''k3'' OFFLINE 0 \<in> set (hostInstance sweep_db)"
    by (simp add: sweep_db_def)
  note th0 = C6_sweep_deletes [OF wf run]
  from th0 f have ok: "\<not> sweepFailed lg" by blast
  with th0 m have "''h3'' \<in> set (map id_hi (hostInstance d'))"
    by (auto simp: row_def RETENTION_WINDOW_def)
  then have k: "''h3'' \<in> set (map id_hi (hostInstance (snd (checkForUnreachableHosts 21600000 21600000 sweep_db))))"
    by (simp add: run)
  have run2: "checkForUnreachableHosts 30000000 30000000 sweep_db =
       ([CheckingForUnreachableHosts,
         HostsMarkedUnreachable [(''h1'', ''org''), (''h2'', ''org'')],
         OldHostInstancesDeleted 3],
        \<lparr>hostInstance = [], faults = []\<rparr>)"
    by (simp add: checkForUnreachableHosts_def sqlStatusCounts_def sqlMarkUnreachable_def
      sqlDeleteOld_def db_call_def Let_def sweep_db_def row_def LIVENESS_TIMEOUT_def RETENTION_WINDOW_def)
  show ?thesis using f wf k run2 ok by (simp add: run)
qed

subsection \<open>The reconnect reconciler\<close>

lemma findMany_unfold:
  "findMany st d =
     (if fst (db_call d) then Inl DbError
      else Inr (filter (\<lambda>r. status r = st) (hostInstance d)), snd (db_call d))"
  by (simp add: findMany_def split_beta db_call_rows)

lemma deleteById_Inr:
  "deleteById i d = (Inr u, d') \<Longrightarrow>
   hostInstance d' = filter (\<lambda>r. id_hi r \<noteq> i) (hostInstance d)"
  by (auto simp: deleteById_def split_beta db_call_rows split: if_splits)

lemma updateStatus_Inr:
  "updateStatus i to touch d = (Inr u, d') \<Longrightarrow>
   hostInstance d' =
     map (\<lambda>r. if id_hi r = i then r\<lparr>status := to, updatedAt := touch r\<rparr> else r) (hostInstance d)"
  by (auto simp: updateStatus_def split_beta db_call_rows split: if_splits)

lemma deleteById_no_faults:
  "faults d = [] \<Longrightarrow> i \<in> set (map id_hi (hostInstance d)) \<Longrightarrow>
   deleteById i d = (Inr (), d\<lparr>hostInstance := filter (\<lambda>r. id_hi r \<noteq> i) (hostInstance d)\<rparr>)"
  by (simp add: deleteById_def db_call_no_faults)

lemma updateStatus_no_faults:
  "faults d = [] \<Longrightarrow> i \<in> set (map id_hi (hostInstance d)) \<Longrightarrow>
   updateStatus i to touch d =
     (Inr (), d\<lparr>hostInstance :=
                  map (\<lambda>r. if id_hi r = i then r\<lparr>status := to, updatedAt := touch r\<rparr> else r)
                    (hostInstance d)\<rparr>)"
  by (simp add: updateStatus_def db_call_no_faults)

lemma concat_map_cong:
  "(\<And>x. x \<in> set xs \<Longrightarrow> f x = g x) \<Longrightarrow> concat (map f xs) = concat (map g xs)"
  by (induction xs) auto

lemma concat_map_filter:
  "concat (map f (filter P xs)) = concat (map (\<lambda>x. if P x then f x else []) xs)"
  by (induction xs) auto

lemma resetLoop_log:
  "resetLoop touch now reg hs acc lg d = (res, lg', d') \<Longrightarrow>
   reconcileFailed lg' = reconcileFailed lg"
proof (induction hs arbitrary: acc lg d)
  case Nil
  then show ?case by simp
next
  case (Cons h hs)
  show ?case
  proof (cases "now - updatedAt h > HOST_UNREACHABLE_THRESHOLD")
    case False
    with Cons.prems have "resetLoop touch now reg hs acc lg d = (res, lg', d')"
      by (simp add: Let_def)
    from Cons.IH [OF this] show ?thesis .
  next
    case True
    show ?thesis
    proof (cases "apiKeyHasNewConnection reg h")
      case sup: True
      obtain x d1 where del: "deleteById (id_hi h) d = (x, d1)"
        by (cases "deleteById (id_hi h) d") auto
      show ?thesis
      proof (cases x)
        case (Inl e)
        with Cons.prems True sup del show ?thesis
          by (auto simp: Let_def reconcileFailed_def)
      next
        case (Inr u)
        with Cons.prems True sup del have "resetLoop touch now reg hs
            (acc @ [(id_hi h, organizationId_hi h, apiKeyId_hi h, now - updatedAt h)])
            (lg @ [ApiKeyHasNewConnection (id_hi h) (apiKeyId_hi h) (organizationId_hi h)]) d1 =
            (res, lg', d')"
          by (simp add: Let_def)
        from Cons.IH [OF this] show ?thesis by (simp add: reconcileFailed_def)
      qed
    next
      case nosup: False
      obtain x d1 where upd: "updateStatus (id_hi h) OFFLINE touch d = (x, d1)"
        by (cases "updateStatus (id_hi h) OFFLINE touch d") auto
      show ?thesis
      proof (cases x)
        case (Inl e)
        with Cons.prems True nosup upd show ?thesis
          by (auto simp: Let_def)
      next
        case (Inr u)
        with Cons.prems True nosup upd have "resetLoop touch now reg hs
            (acc @ [(id_hi h, organizationId_hi h, apiKeyId_hi h, now - updatedAt h)]) lg d1 =
            (res, lg', d')"
          by (simp add: Let_def)
        from Cons.IH [OF this] show ?thesis .
      qed
    qed
  qed
qed

lemma resetLoop_completes:
  assumes "faults d = []"
      and "id_hi ` set hs \<subseteq> id_hi ` set (hostInstance d)"
      and "distinct (map id_hi hs)"
  shows "\<exists>acc' lg' d'. resetLoop touch now reg hs acc lg d = (Inr acc', lg', d')"
  using assms
proof (induction hs arbitrary: d acc lg)
  case Nil
  then show ?case by simp
next
  case (Cons h hs)
  have hid: "id_hi h \<in> set (map id_hi (hostInstance d))" using Cons.prems(2) by auto
  have notin: "id_hi h \<notin> id_hi ` set hs" using Cons.prems(3) by simp
  have p3: "distinct (map id_hi hs)" using Cons.prems(3) by simp
  have sub: "id_hi ` set hs \<subseteq> id_hi ` set (hostInstance d)" using Cons.prems(2) by auto
  show ?case
  proof (cases "now - updatedAt h > HOST_UNREACHABLE_THRESHOLD")
    case False
    then show ?thesis using Cons.IH [OF Cons.prems(1) sub p3] by (simp add: Let_def)
  next
    case True
    show ?thesis
    proof (cases "apiKeyHasNewConnection reg h")
      case sup: True
      let ?d1 = "d\<lparr>hostInstance := filter (\<lambda>r. id_hi r \<noteq> id_hi h) (hostInstance d)\<rparr>"
      have del: "deleteById (id_hi h) d = (Inr (), ?d1)"
        using deleteById_no_faults [OF Cons.prems(1) hid] .
      have p1: "faults ?d1 = []" using Cons.prems(1) by simp
      have p2: "id_hi ` set hs \<subseteq> id_hi ` set (hostInstance ?d1)"
      proof
        fix i assume i: "i \<in> id_hi ` set hs"
        with notin have "i \<noteq> id_hi h" by metis
        moreover from i sub obtain r where "r \<in> set (hostInstance d)" "id_hi r = i" by auto
        ultimately show "i \<in> id_hi ` set (hostInstance ?d1)" by (auto simp: image_iff)
      qed
      from Cons.IH [OF p1 p2 p3] show ?thesis
        using True sup del by (simp add: Let_def)
    next
      case nosup: False
      let ?d1 = "d\<lparr>hostInstance :=
                  map (\<lambda>r. if id_hi r = id_hi h then r\<lparr>status := OFFLINE, updatedAt := touch r\<rparr> else r)
                    (hostInstance d)\<rparr>"
      have upd: "updateStatus (id_hi h) OFFLINE touch d = (Inr (), ?d1)"
        using updateStatus_no_faults [OF Cons.prems(1) hid] .
      have ids: "map id_hi (hostInstance ?d1) = map id_hi (hostInstance d)"
        by (simp add: comp_def if_distrib cong: if_cong)
      have p1: "faults ?d1 = []" using Cons.prems(1) by simp
      have "set (map id_hi (hostInstance ?d1)) = set (map id_hi (hostInstance d))"
        using ids by simp
      then have p2: "id_hi ` set hs \<subseteq> id_hi ` set (hostInstance ?d1)"
        using sub unfolding set_map by simp
      from Cons.IH [OF p1 p2 p3] show ?thesis
        using True nosup upd by (simp add: Let_def)
    qed
  qed
qed

lemma resetLoop_rows:
  assumes "resetLoop touch now reg hs acc lg d = (Inr acc', lg', d')"
      and "distinct (map id_hi (hostInstance d))"
      and "set hs \<subseteq> set (hostInstance d)"
      and "distinct (map id_hi hs)"
      and "\<forall>h \<in> set hs. status h = UNREACHABLE"
  shows "hostInstance d' =
           concat (map (\<lambda>r. if id_hi r \<in> id_hi ` set hs
                             then resolveRow touch now reg r else [r])
                     (hostInstance d))"
  using assms
proof (induction hs arbitrary: d acc lg)
  case Nil
  then show ?case by simp
next
  case (Cons h hs)
  have hin: "h \<in> set (hostInstance d)" using Cons.prems(3) by simp
  have hst: "status h = UNREACHABLE" using Cons.prems(5) by simp
  have notin: "id_hi h \<notin> id_hi ` set hs" using Cons.prems(4) by simp
  have uniq: "\<And>r. r \<in> set (hostInstance d) \<Longrightarrow> id_hi r = id_hi h \<Longrightarrow> r = h"
    using key_unique [OF Cons.prems(2) _ hin] by blast
  have rest_other: "\<And>x. x \<in> set hs \<Longrightarrow> id_hi x \<noteq> id_hi h"
    using notin by (metis imageI)
  have p4: "distinct (map id_hi hs)" using Cons.prems(4) by simp
  have p5: "\<forall>h \<in> set hs. status h = UNREACHABLE" using Cons.prems(5) by simp
  show ?case
  proof (cases "now - updatedAt h > HOST_UNREACHABLE_THRESHOLD")
    case False
    have run: "resetLoop touch now reg hs acc lg d = (Inr acc', lg', d')"
      using Cons.prems(1) False by (simp add: Let_def)
    have p3: "set hs \<subseteq> set (hostInstance d)" using Cons.prems(3) by simp
    have IH: "hostInstance d' =
                concat (map (\<lambda>r. if id_hi r \<in> id_hi ` set hs
                                  then resolveRow touch now reg r else [r])
                          (hostInstance d))"
      using Cons.IH [OF run Cons.prems(2) p3 p4 p5] .
    have same: "concat (map (\<lambda>r. if id_hi r \<in> id_hi ` set hs
                                  then resolveRow touch now reg r else [r]) (hostInstance d))
              = concat (map (\<lambda>r. if id_hi r \<in> id_hi ` set (h # hs)
                                  then resolveRow touch now reg r else [r]) (hostInstance d))"
    proof (rule concat_map_cong)
      fix x assume x: "x \<in> set (hostInstance d)"
      show "(if id_hi x \<in> id_hi ` set hs then resolveRow touch now reg x else [x]) =
            (if id_hi x \<in> id_hi ` set (h # hs) then resolveRow touch now reg x else [x])"
      proof (cases "id_hi x = id_hi h")
        case True
        with uniq [OF x] have "x = h" by simp
        then show ?thesis using False notin by (simp add: resolveRow_def)
      next
        case False
        then show ?thesis by simp
      qed
    qed
    show ?thesis using IH unfolding same .
  next
    case True
    show ?thesis
    proof (cases "apiKeyHasNewConnection reg h")
      case sup: True
      obtain x d1 where del: "deleteById (id_hi h) d = (x, d1)"
        by (cases "deleteById (id_hi h) d") auto
      have "\<exists>u. x = Inr u"
        using Cons.prems(1) True sup del by (cases x) (auto simp: Let_def)
      then obtain u where x: "x = Inr u" by blast
      have rows1: "hostInstance d1 = filter (\<lambda>r. id_hi r \<noteq> id_hi h) (hostInstance d)"
        using deleteById_Inr del x by blast
      have run: "resetLoop touch now reg hs
          (acc @ [(id_hi h, organizationId_hi h, apiKeyId_hi h, now - updatedAt h)])
          (lg @ [ApiKeyHasNewConnection (id_hi h) (apiKeyId_hi h) (organizationId_hi h)]) d1 =
          (Inr acc', lg', d')"
        using Cons.prems(1) True sup del x by (simp add: Let_def)
      have p2: "distinct (map id_hi (hostInstance d1))"
        using Cons.prems(2) unfolding rows1 by (simp add: distinct_map_filter)
      have p3: "set hs \<subseteq> set (hostInstance d1)"
        using Cons.prems(3) rest_other unfolding rows1 by auto
      have IH: "hostInstance d' =
                concat (map (\<lambda>r. if id_hi r \<in> id_hi ` set hs
                                  then resolveRow touch now reg r else [r])
                          (hostInstance d1))"
        using Cons.IH [OF run p2 p3 p4 p5] .
      have "concat (map (\<lambda>r. if id_hi r \<in> id_hi ` set hs
                                  then resolveRow touch now reg r else [r]) (hostInstance d1))
            = concat (map (\<lambda>x. if id_hi x \<noteq> id_hi h
                                then (if id_hi x \<in> id_hi ` set hs
                                      then resolveRow touch now reg x else [x])
                                else []) (hostInstance d))"
        unfolding rows1 by (simp add: concat_map_filter)
      also have "\<dots> = concat (map (\<lambda>r. if id_hi r \<in> id_hi ` set (h # hs)
                                  then resolveRow touch now reg r else [r]) (hostInstance d))"
      proof (rule concat_map_cong)
        fix x assume x: "x \<in> set (hostInstance d)"
        show "(if id_hi x \<noteq> id_hi h
               then (if id_hi x \<in> id_hi ` set hs then resolveRow touch now reg x else [x])
               else []) =
              (if id_hi x \<in> id_hi ` set (h # hs) then resolveRow touch now reg x else [x])"
        proof (cases "id_hi x = id_hi h")
          case True
          with uniq [OF x] have "x = h" by simp
          then show ?thesis using \<open>now - updatedAt h > HOST_UNREACHABLE_THRESHOLD\<close> sup hst
            by (simp add: resolveRow_def)
        next
          case False
          then show ?thesis by simp
        qed
      qed
      finally show ?thesis using IH by simp
    next
      case nosup: False
      obtain x d1 where upd: "updateStatus (id_hi h) OFFLINE touch d = (x, d1)"
        by (cases "updateStatus (id_hi h) OFFLINE touch d") auto
      have "\<exists>u. x = Inr u"
        using Cons.prems(1) True nosup upd by (cases x) (auto simp: Let_def)
      then obtain u where x: "x = Inr u" by blast
      have rows1: "hostInstance d1 =
          map (\<lambda>r. if id_hi r = id_hi h then r\<lparr>status := OFFLINE, updatedAt := touch r\<rparr> else r)
            (hostInstance d)"
        using updateStatus_Inr upd x by blast
      have run: "resetLoop touch now reg hs
          (acc @ [(id_hi h, organizationId_hi h, apiKeyId_hi h, now - updatedAt h)]) lg d1 =
          (Inr acc', lg', d')"
        using Cons.prems(1) True nosup upd x by (simp add: Let_def)
      have ids: "map id_hi (hostInstance d1) = map id_hi (hostInstance d)"
        unfolding rows1 by (simp add: comp_def if_distrib cong: if_cong)
      have p2: "distinct (map id_hi (hostInstance d1))"
        using Cons.prems(2) unfolding ids .
      have p3: "set hs \<subseteq> set (hostInstance d1)"
      proof
        fix x assume x: "x \<in> set hs"
        then have "x \<in> set (hostInstance d)" using Cons.prems(3) by auto
        moreover have "id_hi x \<noteq> id_hi h" using rest_other [OF x] .
        ultimately show "x \<in> set (hostInstance d1)" unfolding rows1 by (auto simp: image_iff)
      qed
      have IH: "hostInstance d' =
                concat (map (\<lambda>r. if id_hi r \<in> id_hi ` set hs
                                  then resolveRow touch now reg r else [r])
                          (hostInstance d1))"
        using Cons.IH [OF run p2 p3 p4 p5] .
      have "concat (map (\<lambda>r. if id_hi r \<in> id_hi ` set hs
                                  then resolveRow touch now reg r else [r]) (hostInstance d1))
            = concat (map (\<lambda>x. if id_hi x = id_hi h
                                then [x\<lparr>status := OFFLINE, updatedAt := touch x\<rparr>]
                                else (if id_hi x \<in> id_hi ` set hs
                                      then resolveRow touch now reg x else [x])) (hostInstance d))"
        unfolding rows1 using notin
        by (simp add: comp_def if_distrib [of "\<lambda>r. if id_hi r \<in> id_hi ` set hs then resolveRow touch now reg r else [r]"] cong: if_cong)
      also have "\<dots> = concat (map (\<lambda>r. if id_hi r \<in> id_hi ` set (h # hs)
                                  then resolveRow touch now reg r else [r]) (hostInstance d))"
      proof (rule concat_map_cong)
        fix x assume x: "x \<in> set (hostInstance d)"
        show "(if id_hi x = id_hi h
               then [x\<lparr>status := OFFLINE, updatedAt := touch x\<rparr>]
               else (if id_hi x \<in> id_hi ` set hs then resolveRow touch now reg x else [x])) =
              (if id_hi x \<in> id_hi ` set (h # hs) then resolveRow touch now reg x else [x])"
        proof (cases "id_hi x = id_hi h")
          case True
          with uniq [OF x] have "x = h" by simp
          then show ?thesis using \<open>now - updatedAt h > HOST_UNREACHABLE_THRESHOLD\<close> nosup hst
            by (simp add: resolveRow_def)
        next
          case False
          then show ?thesis by simp
        qed
      qed
      finally show ?thesis using IH by simp
    qed
  qed
qed

lemma deleteById_Inl:
  "deleteById i d = (Inl e, d') \<Longrightarrow> hostInstance d' = hostInstance d"
  by (auto simp: deleteById_def split_beta db_call_rows split: if_splits)

lemma updateStatus_Inl:
  "updateStatus i to touch d = (Inl e, d') \<Longrightarrow> hostInstance d' = hostInstance d"
  by (auto simp: updateStatus_def split_beta db_call_rows split: if_splits)

lemma resetLoop_untouched:
  assumes "resetLoop touch now reg hs acc lg d = (res, lg', d')"
      and "distinct (map id_hi (hostInstance d))"
      and "set hs \<subseteq> set (hostInstance d)"
      and "distinct (map id_hi hs)"
      and "r \<in> set (hostInstance d)"
      and "r \<notin> set hs \<or> \<not> now - updatedAt r > HOST_UNREACHABLE_THRESHOLD"
  shows "r \<in> set (hostInstance d')"
  using assms
proof (induction hs arbitrary: d acc lg)
  case Nil
  then show ?case by simp
next
  case (Cons h hs)
  have hin: "h \<in> set (hostInstance d)" using Cons.prems(3) by simp
  have notin: "id_hi h \<notin> id_hi ` set hs" using Cons.prems(4) by simp
  have rest_other: "\<And>x. x \<in> set hs \<Longrightarrow> id_hi x \<noteq> id_hi h"
    using notin by (metis imageI)
  have p4: "distinct (map id_hi hs)" using Cons.prems(4) by simp
  have p6: "r \<notin> set hs \<or> \<not> now - updatedAt r > HOST_UNREACHABLE_THRESHOLD"
    using Cons.prems(6) by auto
  show ?case
  proof (cases "now - updatedAt h > HOST_UNREACHABLE_THRESHOLD")
    case False
    have run: "resetLoop touch now reg hs acc lg d = (res, lg', d')"
      using Cons.prems(1) False by (simp add: Let_def)
    have p3: "set hs \<subseteq> set (hostInstance d)" using Cons.prems(3) by simp
    show ?thesis using Cons.IH [OF run Cons.prems(2) p3 p4 Cons.prems(5) p6] .
  next
    case True
    have "r \<noteq> h" using True Cons.prems(6) by auto
    then have rid: "id_hi r \<noteq> id_hi h"
      using key_unique [OF Cons.prems(2) Cons.prems(5) hin] by blast
    show ?thesis
    proof (cases "apiKeyHasNewConnection reg h")
      case sup: True
      obtain x d1 where del: "deleteById (id_hi h) d = (x, d1)"
        by (cases "deleteById (id_hi h) d") auto
      show ?thesis
      proof (cases x)
        case (Inl e)
        then have "d' = d1" using Cons.prems(1) True sup del by (simp add: Let_def)
        moreover have "hostInstance d1 = hostInstance d"
          using deleteById_Inl del Inl by blast
        ultimately show ?thesis using Cons.prems(5) by simp
      next
        case (Inr u)
        have rows1: "hostInstance d1 = filter (\<lambda>r. id_hi r \<noteq> id_hi h) (hostInstance d)"
          using deleteById_Inr del Inr by blast
        have run: "resetLoop touch now reg hs
            (acc @ [(id_hi h, organizationId_hi h, apiKeyId_hi h, now - updatedAt h)])
            (lg @ [ApiKeyHasNewConnection (id_hi h) (apiKeyId_hi h) (organizationId_hi h)]) d1 =
            (res, lg', d')"
          using Cons.prems(1) True sup del Inr by (simp add: Let_def)
        have p2: "distinct (map id_hi (hostInstance d1))"
          using Cons.prems(2) unfolding rows1 by (simp add: distinct_map_filter)
        have p3: "set hs \<subseteq> set (hostInstance d1)"
          using Cons.prems(3) rest_other unfolding rows1 by auto
        have p5: "r \<in> set (hostInstance d1)"
          using Cons.prems(5) rid unfolding rows1 by simp
        show ?thesis using Cons.IH [OF run p2 p3 p4 p5 p6] .
      qed
    next
      case nosup: False
      obtain x d1 where upd: "updateStatus (id_hi h) OFFLINE touch d = (x, d1)"
        by (cases "updateStatus (id_hi h) OFFLINE touch d") auto
      show ?thesis
      proof (cases x)
        case (Inl e)
        then have "d' = d1" using Cons.prems(1) True nosup upd by (simp add: Let_def)
        moreover have "hostInstance d1 = hostInstance d"
          using updateStatus_Inl upd Inl by blast
        ultimately show ?thesis using Cons.prems(5) by simp
      next
        case (Inr u)
        have rows1: "hostInstance d1 =
            map (\<lambda>r. if id_hi r = id_hi h then r\<lparr>status := OFFLINE, updatedAt := touch r\<rparr> else r)
              (hostInstance d)"
          using updateStatus_Inr upd Inr by blast
        have run: "resetLoop touch now reg hs
            (acc @ [(id_hi h, organizationId_hi h, apiKeyId_hi h, now - updatedAt h)]) lg d1 =
            (res, lg', d')"
          using Cons.prems(1) True nosup upd Inr by (simp add: Let_def)
        have ids: "map id_hi (hostInstance d1) = map id_hi (hostInstance d)"
          unfolding rows1 by (simp add: comp_def if_distrib cong: if_cong)
        have p2: "distinct (map id_hi (hostInstance d1))"
          using Cons.prems(2) unfolding ids .
        have other: "\<And>x. x \<in> set (hostInstance d) \<Longrightarrow> id_hi x \<noteq> id_hi h \<Longrightarrow>
                       x \<in> set (hostInstance d1)"
          unfolding rows1 by (auto simp: image_iff)
        have p3: "set hs \<subseteq> set (hostInstance d1)"
          using Cons.prems(3) rest_other other by auto
        have p5: "r \<in> set (hostInstance d1)"
          using other [OF Cons.prems(5) rid] .
        show ?thesis using Cons.IH [OF run p2 p3 p4 p5 p6] .
      qed
    qed
  qed
qed

lemma reconcile_completes:
  assumes "faults d = []" and "wellFormed d"
  shows "\<not> reconcileFailed (fst (checkForUnreachableHostsToReset touch now reg d))"
proof -
  let ?hs = "filter (\<lambda>r. status r = UNREACHABLE) (hostInstance d)"
  have dist: "distinct (map id_hi (hostInstance d))"
    using assms(2) by (simp add: wellFormed_def)
  have fm: "findMany UNREACHABLE d = (Inr ?hs, d)"
    by (simp add: findMany_unfold db_call_no_faults [OF assms(1)])
  have sub: "id_hi ` set ?hs \<subseteq> id_hi ` set (hostInstance d)" by auto
  have dh: "distinct (map id_hi ?hs)" using dist by (simp add: distinct_map_filter)
  obtain acc' lg' d' where loop:
    "resetLoop touch now reg ?hs [] [FoundUnreachableHosts (length ?hs)] d = (Inr acc', lg', d')"
    using resetLoop_completes [OF assms(1) sub dh] by blast
  have "reconcileFailed lg' = reconcileFailed [FoundUnreachableHosts (length ?hs)]"
    using resetLoop_log [OF loop] .
  then have lg': "\<not> reconcileFailed lg'" by (simp add: reconcileFailed_def)
  show ?thesis
    using fm loop lg' by (simp add: checkForUnreachableHostsToReset_def reconcileFailed_def)
qed

lemma reconcile_rows:
  assumes "wellFormed d"
      and "\<not> reconcileFailed (fst (checkForUnreachableHostsToReset touch now reg d))"
  shows "hostInstance (snd (checkForUnreachableHostsToReset touch now reg d)) =
           concat (map (resolveRow touch now reg) (hostInstance d))"
proof -
  let ?hs = "filter (\<lambda>r. status r = UNREACHABLE) (hostInstance d)"
  let ?d1 = "snd (db_call d)"
  have dist: "distinct (map id_hi (hostInstance d))"
    using assms(1) by (simp add: wellFormed_def)
  have rows1: "hostInstance ?d1 = hostInstance d" by (rule db_call_rows)
  have nothrow: "\<not> fst (db_call d)"
    using assms(2)
    by (auto simp: checkForUnreachableHostsToReset_def findMany_unfold reconcileFailed_def)
  then have fm: "findMany UNREACHABLE d = (Inr ?hs, ?d1)"
    by (simp add: findMany_unfold)
  have pointwise: "concat (map (\<lambda>r. if id_hi r \<in> id_hi ` set ?hs
                                  then resolveRow touch now reg r else [r]) (hostInstance d))
        = concat (map (resolveRow touch now reg) (hostInstance d))"
  proof (rule concat_map_cong)
    fix x assume x: "x \<in> set (hostInstance d)"
    show "(if id_hi x \<in> id_hi ` set ?hs then resolveRow touch now reg x else [x]) =
          resolveRow touch now reg x"
    proof (cases "status x = UNREACHABLE")
      case True
      with x have "x \<in> set ?hs" by simp
      then have "id_hi x \<in> id_hi ` set ?hs" by (rule imageI)
      then show ?thesis by simp
    next
      case False
      then show ?thesis by (simp add: resolveRow_def)
    qed
  qed
  show ?thesis
  proof (cases "?hs = []")
    case True
    then have "\<And>x. x \<in> set (hostInstance d) \<Longrightarrow> status x \<noteq> UNREACHABLE"
      by (simp add: filter_empty_conv)
    then have "concat (map (resolveRow touch now reg) (hostInstance d)) =
               concat (map (\<lambda>r. [r]) (hostInstance d))"
      by (intro concat_map_cong) (simp add: resolveRow_def)
    then have "concat (map (resolveRow touch now reg) (hostInstance d)) = hostInstance d"
      by simp
    then show ?thesis using True fm rows1 by (simp add: checkForUnreachableHostsToReset_def)
  next
    case False
    obtain res lg' d' where loop:
      "resetLoop touch now reg ?hs [] [FoundUnreachableHosts (length ?hs)] ?d1 = (res, lg', d')"
      by (cases "resetLoop touch now reg ?hs [] [FoundUnreachableHosts (length ?hs)] ?d1") auto
    have "\<exists>acc'. res = Inr acc'"
      using assms(2) False fm loop
      by (cases res) (auto simp: checkForUnreachableHostsToReset_def reconcileFailed_def)
    then obtain acc' where res: "res = Inr acc'" by blast
    have sub: "set ?hs \<subseteq> set (hostInstance ?d1)" unfolding rows1 by auto
    have d1: "distinct (map id_hi (hostInstance ?d1))" unfolding rows1 by (rule dist)
    have dh: "distinct (map id_hi ?hs)" using dist by (simp add: distinct_map_filter)
    have st: "\<forall>h \<in> set ?hs. status h = UNREACHABLE" by simp
    have "hostInstance d' =
            concat (map (\<lambda>r. if id_hi r \<in> id_hi ` set ?hs
                              then resolveRow touch now reg r else [r]) (hostInstance ?d1))"
      using resetLoop_rows [OF loop [unfolded res] d1 sub dh st] .
    then have "hostInstance d' = concat (map (resolveRow touch now reg) (hostInstance d))"
      unfolding rows1 pointwise .
    then show ?thesis
      using False fm loop res by (simp add: checkForUnreachableHostsToReset_def)
  qed
qed

lemma reconcile_untouched:
  assumes "wellFormed d"
      and "r \<in> set (hostInstance d)"
      and "\<not> (status r = UNREACHABLE \<and> HOST_UNREACHABLE_THRESHOLD < now - updatedAt r)"
  shows "r \<in> set (hostInstance (snd (checkForUnreachableHostsToReset touch now reg d)))"
proof -
  let ?hs = "filter (\<lambda>r. status r = UNREACHABLE) (hostInstance d)"
  let ?d1 = "snd (db_call d)"
  have dist: "distinct (map id_hi (hostInstance d))"
    using assms(1) by (simp add: wellFormed_def)
  have rows1: "hostInstance ?d1 = hostInstance d" by (rule db_call_rows)
  show ?thesis
  proof (cases "fst (db_call d) \<or> ?hs = []")
    case True
    then have "hostInstance (snd (checkForUnreachableHostsToReset touch now reg d)) = hostInstance d"
      by (auto simp: checkForUnreachableHostsToReset_def findMany_unfold rows1)
    then show ?thesis using assms(2) by simp
  next
    case False
    then have fm: "findMany UNREACHABLE d = (Inr ?hs, ?d1)" and ne: "?hs \<noteq> []"
      by (simp_all add: findMany_unfold)
    obtain res lg' d' where loop:
      "resetLoop touch now reg ?hs [] [FoundUnreachableHosts (length ?hs)] ?d1 = (res, lg', d')"
      by (cases "resetLoop touch now reg ?hs [] [FoundUnreachableHosts (length ?hs)] ?d1") auto
    have fin: "snd (checkForUnreachableHostsToReset touch now reg d) = d'"
      using fm ne loop by (cases res) (simp_all add: checkForUnreachableHostsToReset_def)
    have sub: "set ?hs \<subseteq> set (hostInstance ?d1)" unfolding rows1 by auto
    have d1: "distinct (map id_hi (hostInstance ?d1))" unfolding rows1 by (rule dist)
    have dh: "distinct (map id_hi ?hs)" using dist by (simp add: distinct_map_filter)
    have rin: "r \<in> set (hostInstance ?d1)" unfolding rows1 by (rule assms(2))
    have young: "r \<notin> set ?hs \<or> \<not> now - updatedAt r > HOST_UNREACHABLE_THRESHOLD"
      using assms(3) by auto
    show ?thesis
      unfolding fin using resetLoop_untouched [OF loop d1 sub dh rin young] .
  qed
qed

lemma in_concat_map:
  "y \<in> set (concat (map f xs)) \<longleftrightarrow> (\<exists>x \<in> set xs. y \<in> set (f x))"
  by auto

lemma resolveRow_id: "y \<in> set (resolveRow touch now reg x) \<Longrightarrow> id_hi y = id_hi x"
  by (auto simp: resolveRow_def split: if_splits)

text \<open>
  Claim C1. On a table with unique identifiers, a reconciler run ends in its catch block
  only if a persistence call throws; when none does (in particular under an empty fault
  schedule), every row with status UNREACHABLE whose last update is more than the
  unreachable threshold (30 minutes) before \<open>now\<close> is deleted if some registry entry has
  the same API key and a different identifier, and otherwise stays in the table with
  status OFFLINE. In every run, completed or not, every other row is left as it was: in
  particular an UNREACHABLE row within the threshold and the row of the newer connection.
\<close>

theorem C1_reconciler_resolves:
  assumes "wellFormed d"
      and "checkForUnreachableHostsToReset touch now reg d = (lg, d')"
  shows "(faults d = [] \<longrightarrow> \<not> reconcileFailed lg)
       \<and> (\<not> reconcileFailed lg \<longrightarrow>
           (\<forall>r \<in> set (hostInstance d).
              (status r = UNREACHABLE \<and> HOST_UNREACHABLE_THRESHOLD < now - updatedAt r
                 \<and> (\<exists>c \<in> set (map snd reg). apiKeyId_ch c = apiKeyId_hi r \<and> ws_id c \<noteq> id_hi r)
               \<longrightarrow> id_hi r \<notin> set (map id_hi (hostInstance d')))
            \<and> (status r = UNREACHABLE \<and> HOST_UNREACHABLE_THRESHOLD < now - updatedAt r
                 \<and> \<not> (\<exists>c \<in> set (map snd reg). apiKeyId_ch c = apiKeyId_hi r \<and> ws_id c \<noteq> id_hi r)
               \<longrightarrow> r\<lparr>status := OFFLINE, updatedAt := touch r\<rparr> \<in> set (hostInstance d')
                   \<and> id_hi r \<in> set (map id_hi (hostInstance d')))))
       \<and> (\<forall>r \<in> set (hostInstance d).
              \<not> (status r = UNREACHABLE \<and> HOST_UNREACHABLE_THRESHOLD < now - updatedAt r)
              \<longrightarrow> r \<in> set (hostInstance d'))"
proof (intro conjI)
  show "faults d = [] \<longrightarrow> \<not> reconcileFailed lg"
    using reconcile_completes [OF _ assms(1), of touch now reg] assms(2) by simp
next
  show "\<forall>r \<in> set (hostInstance d).
              \<not> (status r = UNREACHABLE \<and> HOST_UNREACHABLE_THRESHOLD < now - updatedAt r)
              \<longrightarrow> r \<in> set (hostInstance d')"
    using reconcile_untouched [OF assms(1), of _ now touch reg] assms(2) by simp
next
  show "\<not> reconcileFailed lg \<longrightarrow>
           (\<forall>r \<in> set (hostInstance d).
              (status r = UNREACHABLE \<and> HOST_UNREACHABLE_THRESHOLD < now - updatedAt r
                 \<and> (\<exists>c \<in> set (map snd reg). apiKeyId_ch c = apiKeyId_hi r \<and> ws_id c \<noteq> id_hi r)
               \<longrightarrow> id_hi r \<notin> set (map id_hi (hostInstance d')))
            \<and> (status r = UNREACHABLE \<and> HOST_UNREACHABLE_THRESHOLD < now - updatedAt r
                 \<and> \<not> (\<exists>c \<in> set (map snd reg). apiKeyId_ch c = apiKeyId_hi r \<and> ws_id c \<noteq> id_hi r)
               \<longrightarrow> r\<lparr>status := OFFLINE, updatedAt := touch r\<rparr> \<in> set (hostInstance d')
                   \<and> id_hi r \<in> set (map id_hi (hostInstance d'))))"
  proof (intro impI ballI)
    fix r assume ok: "\<not> reconcileFailed lg" and r: "r \<in> set (hostInstance d)"
    have fin: "\<not> reconcileFailed (fst (checkForUnreachableHostsToReset touch now reg d))"
      using ok assms(2) by simp
    have rows: "hostInstance d' = concat (map (resolveRow touch now reg) (hostInstance d))"
      using reconcile_rows [OF assms(1) fin] assms(2) by simp
    have dist: "distinct (map id_hi (hostInstance d))"
      using assms(1) by (simp add: wellFormed_def)
    have sup: "apiKeyHasNewConnection reg r \<longleftrightarrow>
        (\<exists>c \<in> set (map snd reg). apiKeyId_ch c = apiKeyId_hi r \<and> ws_id c \<noteq> id_hi r)"
      by (simp add: apiKeyHasNewConnection_def list_ex_iff)
    have mine: "\<And>y. y \<in> set (hostInstance d') \<Longrightarrow> id_hi y = id_hi r \<Longrightarrow>
        y \<in> set (resolveRow touch now reg r)"
    proof -
      fix y assume y: "y \<in> set (hostInstance d')" and e: "id_hi y = id_hi r"
      from y obtain x where x: "x \<in> set (hostInstance d)" "y \<in> set (resolveRow touch now reg x)"
        unfolding rows in_concat_map by blast
      from resolveRow_id [OF x(2)] e have "id_hi x = id_hi r" by simp
      from key_unique [OF dist x(1) r this] x(2) show "y \<in> set (resolveRow touch now reg r)" by simp
    qed
    have keep: "\<And>y. y \<in> set (resolveRow touch now reg r) \<Longrightarrow> y \<in> set (hostInstance d')"
      unfolding rows in_concat_map using r by blast
    have A: "status r = UNREACHABLE \<and> HOST_UNREACHABLE_THRESHOLD < now - updatedAt r
                \<and> (\<exists>c \<in> set (map snd reg). apiKeyId_ch c = apiKeyId_hi r \<and> ws_id c \<noteq> id_hi r)
              \<longrightarrow> id_hi r \<notin> set (map id_hi (hostInstance d'))"
    proof (intro impI notI)
      assume h: "status r = UNREACHABLE \<and> HOST_UNREACHABLE_THRESHOLD < now - updatedAt r
                \<and> (\<exists>c \<in> set (map snd reg). apiKeyId_ch c = apiKeyId_hi r \<and> ws_id c \<noteq> id_hi r)"
         and "id_hi r \<in> set (map id_hi (hostInstance d'))"
      then obtain y where y: "y \<in> set (hostInstance d')" "id_hi y = id_hi r" by auto
      from mine [OF y] have "y \<in> set (resolveRow touch now reg r)" .
      moreover have "resolveRow touch now reg r = []"
        using h sup by (simp add: resolveRow_def)
      ultimately show False by simp
    qed
    have B: "status r = UNREACHABLE \<and> HOST_UNREACHABLE_THRESHOLD < now - updatedAt r
                \<and> \<not> (\<exists>c \<in> set (map snd reg). apiKeyId_ch c = apiKeyId_hi r \<and> ws_id c \<noteq> id_hi r)
              \<longrightarrow> r\<lparr>status := OFFLINE, updatedAt := touch r\<rparr> \<in> set (hostInstance d')
                  \<and> id_hi r \<in> set (map id_hi (hostInstance d'))"
    proof
      assume h: "status r = UNREACHABLE \<and> HOST_UNREACHABLE_THRESHOLD < now - updatedAt r
                \<and> \<not> (\<exists>c \<in> set (map snd reg). apiKeyId_ch c = apiKeyId_hi r \<and> ws_id c \<noteq> id_hi r)"
      then have "resolveRow touch now reg r = [r\<lparr>status := OFFLINE, updatedAt := touch r\<rparr>]"
        using sup by (simp add: resolveRow_def)
      then have in': "r\<lparr>status := OFFLINE, updatedAt := touch r\<rparr> \<in> set (hostInstance d')"
        using keep by simp
      then have "id_hi (r\<lparr>status := OFFLINE, updatedAt := touch r\<rparr>) \<in> id_hi ` set (hostInstance d')"
        by (rule imageI)
      with in' show "r\<lparr>status := OFFLINE, updatedAt := touch r\<rparr> \<in> set (hostInstance d')
                  \<and> id_hi r \<in> set (map id_hi (hostInstance d'))" by simp
    qed
    from A B
    show "(status r = UNREACHABLE \<and> HOST_UNREACHABLE_THRESHOLD < now - updatedAt r
                 \<and> (\<exists>c \<in> set (map snd reg). apiKeyId_ch c = apiKeyId_hi r \<and> ws_id c \<noteq> id_hi r)
               \<longrightarrow> id_hi r \<notin> set (map id_hi (hostInstance d')))
            \<and> (status r = UNREACHABLE \<and> HOST_UNREACHABLE_THRESHOLD < now - updatedAt r
                 \<and> \<not> (\<exists>c \<in> set (map snd reg). apiKeyId_ch c = apiKeyId_hi r \<and> ws_id c \<noteq> id_hi r)
               \<longrightarrow> r\<lparr>status := OFFLINE, updatedAt := touch r\<rparr> \<in> set (hostInstance d')
                   \<and> id_hi r \<in> set (map id_hi (hostInstance d')))" by blast
  qed
qed

lemma recon_run:
  "checkForUnreachableHostsToReset updatedAt 2000000 recon_reg recon_db =
     ([FoundUnreachableHosts 3, ApiKeyHasNewConnection ''old1'' ''k1'' ''org'',
       ResetUnreachableHosts [(''old1'', ''org'', ''k1'', 2000000), (''old2'', ''org'', ''k2'', 2000000)]],
      \<lparr>hostInstance =
        [row ''new1'' ''k1'' ONLINE 1990000, row ''old2'' ''k2'' OFFLINE 0,
         row ''young'' ''k3'' UNREACHABLE 1000000], faults = []\<rparr>)"
  by (simp add: checkForUnreachableHostsToReset_def findMany_def deleteById_def updateStatus_def
      db_call_def recon_db_def recon_reg_def row_def apiKeyHasNewConnection_def
      HOST_UNREACHABLE_THRESHOLD_def Let_def)

text \<open>
  C1 at a table with a superseded old row, the newer connection's row, an old row without
  successor and a young UNREACHABLE row.
\<close>

theorem C1_reconciler_resolves_witness:
  "faults recon_db = [] \<and> wellFormed recon_db
   \<and> \<not> reconcileFailed (fst (checkForUnreachableHostsToReset updatedAt 2000000 recon_reg recon_db))
   \<and> ''old1'' \<notin> set (map id_hi (hostInstance (snd
        (checkForUnreachableHostsToReset updatedAt 2000000 recon_reg recon_db))))
   \<and> row ''old2'' ''k2'' OFFLINE 0 \<in> set (hostInstance (snd
        (checkForUnreachableHostsToReset updatedAt 2000000 recon_reg recon_db)))
   \<and> row ''young'' ''k3'' UNREACHABLE 1000000 \<in> set (hostInstance (snd
        (checkForUnreachableHostsToReset updatedAt 2000000 recon_reg recon_db)))
   \<and> row ''new1'' ''k1'' ONLINE 1990000 \<in> set (hostInstance (snd
        (checkForUnreachableHostsToReset updatedAt 2000000 recon_reg recon_db)))"
proof -
  have f: "faults recon_db = []" and wf: "wellFormed recon_db"
    by (simp_all add: recon_db_def wellFormed_def row_def)
  obtain lg d' where run: "checkForUnreachableHostsToReset updatedAt 2000000 recon_reg recon_db = (lg, d')"
    by (cases "checkForUnreachableHostsToReset updatedAt 2000000 recon_reg recon_db") auto
  note th0 = C1_reconciler_resolves [OF wf run]
  from th0 f have ok: "\<not> reconcileFailed lg" by blast
  with th0 have all: "\<forall>r \<in> set (hostInstance recon_db).
              (status r = UNREACHABLE \<and> HOST_UNREACHABLE_THRESHOLD < 2000000 - updatedAt r
                 \<and> (\<exists>c \<in> set (map snd recon_reg). apiKeyId_ch c = apiKeyId_hi r \<and> ws_id c \<noteq> id_hi r)
               \<longrightarrow> id_hi r \<notin> set (map id_hi (hostInstance d')))
            \<and> (status r = UNREACHABLE \<and> HOST_UNREACHABLE_THRESHOLD < 2000000 - updatedAt r
                 \<and> \<not> (\<exists>c \<in> set (map snd recon_reg). apiKeyId_ch c = apiKeyId_hi r \<and> ws_id c \<noteq> id_hi r)
               \<longrightarrow> r\<lparr>status := OFFLINE, updatedAt := updatedAt r\<rparr> \<in> set (hostInstance d')
                   \<and> id_hi r \<in> set (map id_hi (hostInstance d')))"
    by blast
  from th0 have rest: "\<forall>r \<in> set (hostInstance recon_db).
              \<not> (status r = UNREACHABLE \<and> HOST_UNREACHABLE_THRESHOLD < 2000000 - updatedAt r)
              \<longrightarrow> r \<in> set (hostInstance d')"
    by blast
  have m: "row ''old1'' ''k1'' UNREACHABLE 0 \<in> set (hostInstance recon_db)"
          "row ''old2'' ''k2'' UNREACHABLE 0 \<in> set (hostInstance recon_db)"
          "row ''young'' ''k3'' UNREACHABLE 1000000 \<in> set (hostInstance recon_db)"
          "row ''new1'' ''k1'' ONLINE 1990000 \<in> set (hostInstance recon_db)"
    by (simp_all add: recon_db_def)
  have 1: "''old1'' \<notin> set (map id_hi (hostInstance d'))"
    using bspec [OF all m(1)] by (simp add: row_def recon_reg_def HOST_UNREACHABLE_THRESHOLD_def)
  have 2: "row ''old2'' ''k2'' OFFLINE 0 \<in> set (hostInstance d')"
    using bspec [OF all m(2)] by (simp add: row_def recon_reg_def HOST_UNREACHABLE_THRESHOLD_def)
  have 3: "row ''young'' ''k3'' UNREACHABLE 1000000 \<in> set (hostInstance d')"
    using bspec [OF rest m(3)] by (simp add: row_def recon_reg_def HOST_UNREACHABLE_THRESHOLD_def)
  have 4: "row ''new1'' ''k1'' ONLINE 1990000 \<in> set (hostInstance d')"
    using bspec [OF rest m(4)] by (simp add: row_def recon_reg_def HOST_UNREACHABLE_THRESHOLD_def)
  show ?thesis using f wf ok 1 2 3 4 by (simp add: run)
qed

subsection \<open>The server health monitor\<close>

lemma handlerEntry_simps [simp]:
  "handlerEntry (InRestartCooldown a b)" "handlerEntry (InitiatingSelfRestart n)"
  "\<not> handlerEntry (PerformingHealthCheck x y)" "\<not> handlerEntry DatabaseConnectivityCheckFailed"
  "\<not> handlerEntry (PotentialInconsistency x y)" "\<not> handlerEntry (FoundDisconnectedHosts x ids)"
  "\<not> handlerEntry (ErrorDuringHealthCheck e)" "\<not> handlerEntry ExitingProcess"
  "\<not> handlerEntry (FailedToPrepareRestart e)" "\<not> handlerEntry (StartingHealthMonitoring i x j)"
  "\<not> handlerEntry InitialHealthCheckFailed" "\<not> handlerEntry (HealthRestored x)"
  "\<not> handlerEntry (HealthCheckFailed x)"
  by (simp_all add: handlerEntry_def)

lemma checkServerHealth_rows:
  "hostInstance (snd (snd (checkServerHealth reg cs m d))) = hostInstance d"
  by (simp add: checkServerHealth_def rawLivenessProbe_def findMany_def db_call_def Let_def
      split: list.splits)

lemma checkServerHealth_log:
  "filter handlerEntry (fst (snd (checkServerHealth reg cs m d))) = []"
  by (simp add: checkServerHealth_def rawLivenessProbe_def findMany_def db_call_def Let_def
      split: list.splits)

lemma handle_fields:
  "healthCheckFailures (fst (handleUnhealthyServer now touch m d)) = healthCheckFailures m"
  "isServerHealthy (fst (handleUnhealthyServer now touch m d)) = isServerHealthy m"
  "length (filter handlerEntry (hlog (fst (handleUnhealthyServer now touch m d)))) =
     length (filter handlerEntry (hlog m)) + 1"
  by (simp_all add: handleUnhealthyServer_def updateMany_def db_call_def Let_def split: list.splits)

lemma periodic_outcome:
  "isServerHealthy (fst (periodicHealthCheck now touch reg cs m d)) =
     fst (checkServerHealth reg cs m d)"
  "healthCheckFailures (fst (periodicHealthCheck now touch reg cs m d)) =
     (if fst (checkServerHealth reg cs m d) then 0 else healthCheckFailures m + 1)"
  "escalationAttempts (fst (periodicHealthCheck now touch reg cs m d)) =
     escalationAttempts m +
     (if \<not> fst (checkServerHealth reg cs m d) \<and> RESTART_THRESHOLD \<le> healthCheckFailures m + 1
      then 1 else 0)"
proof -
  obtain ok lg d1 where c: "checkServerHealth reg cs m d = (ok, lg, d1)"
    by (cases "checkServerHealth reg cs m d") auto
  have lg: "filter handlerEntry lg = []"
    using checkServerHealth_log [of reg cs m d] c by simp
  show "isServerHealthy (fst (periodicHealthCheck now touch reg cs m d)) =
     fst (checkServerHealth reg cs m d)"
    by (simp add: periodicHealthCheck_def c Let_def handle_fields)
  show "healthCheckFailures (fst (periodicHealthCheck now touch reg cs m d)) =
     (if fst (checkServerHealth reg cs m d) then 0 else healthCheckFailures m + 1)"
    by (simp add: periodicHealthCheck_def c Let_def handle_fields)
  show "escalationAttempts (fst (periodicHealthCheck now touch reg cs m d)) =
     escalationAttempts m +
     (if \<not> fst (checkServerHealth reg cs m d) \<and> RESTART_THRESHOLD \<le> healthCheckFailures m + 1
      then 1 else 0)"
    by (simp add: periodicHealthCheck_def c Let_def handle_fields escalationAttempts_def lg)
qed

lemma initial_outcome_any:
  "healthCheckFailures (fst (initialHealthCheck reg cs m d)) =
     (if isServerHealthy (fst (initialHealthCheck reg cs m d)) then healthCheckFailures m
      else healthCheckFailures m + 1)"
  "escalationAttempts (fst (initialHealthCheck reg cs m d)) = escalationAttempts m"
proof -
  define m0 where "m0 = m\<lparr>hlog := hlog m @
      [StartingHealthMonitoring HEALTH_CHECK_INTERVAL RESTART_THRESHOLD RESTART_COOLDOWN]\<rparr>"
  obtain ok lg d1 where c: "checkServerHealth reg cs m0 d = (ok, lg, d1)"
    by (cases "checkServerHealth reg cs m0 d") auto
  have lg: "filter handlerEntry lg = []"
    using checkServerHealth_log [of reg cs m0 d] c by simp
  have m0: "healthCheckFailures m0 = healthCheckFailures m"
           "filter handlerEntry (hlog m0) = filter handlerEntry (hlog m)"
    by (simp_all add: m0_def)
  have unf: "initialHealthCheck reg cs m d =
      (let m1 = m0\<lparr>hlog := hlog m0 @ lg, isServerHealthy := ok\<rparr> in
           if \<not> ok
           then (m1\<lparr>healthCheckFailures := healthCheckFailures m1 + 1,
                    hlog := hlog m1 @ [InitialHealthCheckFailed]\<rparr>, d1)
           else (m1, d1))"
    unfolding initialHealthCheck_def m0_def [symmetric] Let_def c by simp
  show "healthCheckFailures (fst (initialHealthCheck reg cs m d)) =
     (if isServerHealthy (fst (initialHealthCheck reg cs m d)) then healthCheckFailures m
      else healthCheckFailures m + 1)"
    unfolding unf by (simp add: Let_def m0)
  show "escalationAttempts (fst (initialHealthCheck reg cs m d)) = escalationAttempts m"
    unfolding unf by (simp add: Let_def m0 lg escalationAttempts_def)
qed

lemma initial_outcome:
  "healthCheckFailures (fst (initialHealthCheck reg cs health_monitor_init d)) =
     (if isServerHealthy (fst (initialHealthCheck reg cs health_monitor_init d)) then 0 else 1)"
  "escalationAttempts (fst (initialHealthCheck reg cs health_monitor_init d)) = 0"
  using initial_outcome_any [of reg cs health_monitor_init d]
  by (simp_all add: health_monitor_init_def escalationAttempts_def)

lemma periodicRun_snoc:
  "periodicRun m (ws @ [w]) =
     periodicRun m ws @
     [fst (periodicHealthCheck (w_now w) (w_touch w) (w_hosts w) (w_clients w)
             (last (m # periodicRun m ws)) (w_db w))]"
  by (induction ws arbitrary: m) (simp_all add: Let_def)

lemma monitorRun_snoc:
  "monitorRun w0 (ws @ [w]) =
     monitorRun w0 ws @
     [fst (periodicHealthCheck (w_now w) (w_touch w) (w_hosts w) (w_clients w)
             (last (monitorRun w0 ws)) (w_db w))]"
  by (simp add: monitorRun_def Let_def periodicRun_snoc)

lemma monitorRun_counter:
  "healthCheckFailures (last (monitorRun w0 ws)) =
     length (takeWhile (\<lambda>m. \<not> isServerHealthy m) (rev (monitorRun w0 ws)))"
proof (induction ws rule: rev_induct)
  case Nil
  show ?case
    using initial_outcome(1) [of "w_hosts w0" "w_clients w0" "w_db w0"]
    by (simp add: monitorRun_def Let_def)
next
  case (snoc w ws)
  show ?case
    unfolding monitorRun_snoc using snoc
    by (simp add: periodic_outcome)
qed

text \<open>
  Claim C7 as stated says that with ONLINE rows persisted and an empty registry the check
  fails only if the failure counter is non-zero. With four ONLINE rows, an empty registry
  and the counter at 0, the third step of the check finds four disconnected hosts and
  fails.
\<close>

theorem C7_four_online_fails_counterexample:
  "length (filter (\<lambda>r. status r = ONLINE) (hostInstance four_online_db)) = 4
   \<and> healthCheckFailures health_monitor_init = 0
   \<and> checkServerHealth [] 0 health_monitor_init four_online_db =
       (False,
        [PerformingHealthCheck 0 0, PotentialInconsistency 4 0,
         FoundDisconnectedHosts 4 [''a'', ''b'', ''c'', ''d'']],
        four_online_db)"
  by (simp add: checkServerHealth_def rawLivenessProbe_def findMany_def db_call_def Let_def
      four_online_db_def row_def health_monitor_init_def)

text \<open>
  Claim C7, amended. When the probe and the read of the ONLINE rows succeed, the registry
  is empty and between one and three ONLINE rows are persisted, the check fails if and
  only if the failure counter is non-zero. With more than three ONLINE rows it fails
  whatever the counter is.
\<close>

theorem C7_empty_registry_check:
  assumes "\<not> fst (db_call d)"
      and "\<not> fst (db_call (snd (db_call d)))"
      and "0 < length (filter (\<lambda>r. status r = ONLINE) (hostInstance d))"
  shows "(length (filter (\<lambda>r. status r = ONLINE) (hostInstance d)) \<le> 3 \<longrightarrow>
            (\<not> fst (checkServerHealth [] cs m d) \<longleftrightarrow> 0 < healthCheckFailures m))
       \<and> (3 < length (filter (\<lambda>r. status r = ONLINE) (hostInstance d)) \<longrightarrow>
            \<not> fst (checkServerHealth [] cs m d))"
  using assms
  by (auto simp: checkServerHealth_def rawLivenessProbe_def findMany_unfold split_beta
      db_call_rows Let_def)

text \<open>
  C7 amended, at one ONLINE row and an empty registry: the check passes with the counter
  at 0 and fails with the counter at 3.
\<close>

theorem C7_empty_registry_check_witness:
  "\<not> fst (db_call one_online_db)
   \<and> \<not> fst (db_call (snd (db_call one_online_db)))
   \<and> 0 < length (filter (\<lambda>r. status r = ONLINE) (hostInstance one_online_db))
   \<and> length (filter (\<lambda>r. status r = ONLINE) (hostInstance one_online_db)) \<le> 3
   \<and> fst (checkServerHealth [] 0 health_monitor_init one_online_db)
   \<and> \<not> fst (checkServerHealth [] 0 failed_thrice one_online_db)"
proof -
  have f: "\<not> fst (db_call one_online_db)" "\<not> fst (db_call (snd (db_call one_online_db)))"
    and n: "0 < length (filter (\<lambda>r. status r = ONLINE) (hostInstance one_online_db))"
    and k: "length (filter (\<lambda>r. status r = ONLINE) (hostInstance one_online_db)) \<le> 3"
    by (simp_all add: one_online_db_def row_def db_call_def)
  have "fst (checkServerHealth [] 0 health_monitor_init one_online_db)"
    using C7_empty_registry_check [OF f n, of 0 health_monitor_init] k
    by (simp add: health_monitor_init_def)
  moreover have "\<not> fst (checkServerHealth [] 0 failed_thrice one_online_db)"
    using C7_empty_registry_check [OF f n, of 0 failed_thrice] k
    by (simp add: failed_thrice_def)
  ultimately show ?thesis using f n k by blast
qed

text \<open>
  Claim C2 as stated says that process termination follows even when the bulk demotion
  fails. When \<open>updateMany\<close> throws, the catch block logs and returns: no exit is scheduled
  and the restart time is not recorded.
\<close>

theorem C2_no_exit_when_demotion_throws_counterexample:
  "RESTART_THRESHOLD \<le> healthCheckFailures failed_thrice
   \<and> \<not> (1700000000000 - lastRestartTime failed_thrice < RESTART_COOLDOWN)
   \<and> handleUnhealthyServer 1700000000000 updatedAt failed_thrice faulty_db =
       (failed_thrice\<lparr>hlog := [InitiatingSelfRestart 3, FailedToPrepareRestart DbError]\<rparr>,
        faulty_db\<lparr>faults := []\<rparr>)
   \<and> exitTimers (fst (handleUnhealthyServer 1700000000000 updatedAt failed_thrice faulty_db)) = []
   \<and> lastRestartTime (fst (handleUnhealthyServer 1700000000000 updatedAt failed_thrice faulty_db)) = 0"
  by (simp add: handleUnhealthyServer_def updateMany_def db_call_def Let_def failed_thrice_def
      faulty_db_def row_def RESTART_COOLDOWN_def RESTART_THRESHOLD_def)

text \<open>
  Claim C2, amended. When \<open>handleUnhealthyServer\<close> runs outside the cooldown and the bulk
  update succeeds, every ONLINE row becomes UNREACHABLE, the restart time is set to \<open>now\<close>,
  and an exit with code 1 is scheduled 1000 ms later. When the bulk update throws, the rows,
  the restart time and the timers are unchanged and the failure is logged: the process is
  not terminated by this call.
\<close>

theorem C2_escalation:
  assumes "\<not> now - lastRestartTime m < RESTART_COOLDOWN"
      and "handleUnhealthyServer now touch m d = (m', d')"
  shows "(\<not> fst (db_call d) \<longrightarrow>
            hostInstance d' =
              map (\<lambda>r. if status r = ONLINE then r\<lparr>status := UNREACHABLE, updatedAt := touch r\<rparr>
                        else r) (hostInstance d)
            \<and> (\<forall>r \<in> set (hostInstance d'). status r \<noteq> ONLINE)
            \<and> lastRestartTime m' = now
            \<and> exitTimers m' = exitTimers m @ [(1000, 1)]
            \<and> hlog m' = hlog m @ [InitiatingSelfRestart (healthCheckFailures m), ExitingProcess])
       \<and> (fst (db_call d) \<longrightarrow>
            hostInstance d' = hostInstance d
            \<and> lastRestartTime m' = lastRestartTime m
            \<and> exitTimers m' = exitTimers m
            \<and> hlog m' = hlog m @ [InitiatingSelfRestart (healthCheckFailures m),
                                   FailedToPrepareRestart DbError])"
proof -
  obtain thrown d0 where dc: "db_call d = (thrown, d0)"
    by (cases "db_call d") auto
  have rows: "hostInstance d0 = hostInstance d"
    using dc by (auto simp: db_call_def split: list.splits)
  show ?thesis
    using assms rows by (auto simp: handleUnhealthyServer_def updateMany_def Let_def dc)
qed

text \<open>
  C2 amended, after three failures and long after the last restart: with a working store
  the ONLINE row is demoted and the exit scheduled; with a store that throws nothing is
  scheduled.
\<close>

theorem C2_escalation_witness:
  "\<not> 1700000000000 - lastRestartTime failed_thrice < RESTART_COOLDOWN
   \<and> \<not> fst (db_call one_online_db)
   \<and> hostInstance (snd (handleUnhealthyServer 1700000000000 updatedAt failed_thrice one_online_db)) =
       [row ''a'' ''ka'' UNREACHABLE 0]
   \<and> lastRestartTime (fst (handleUnhealthyServer 1700000000000 updatedAt failed_thrice one_online_db)) = 1700000000000
   \<and> exitTimers (fst (handleUnhealthyServer 1700000000000 updatedAt failed_thrice one_online_db)) = [(1000, 1)]
   \<and> fst (db_call faulty_db)
   \<and> exitTimers (fst (handleUnhealthyServer 1700000000000 updatedAt failed_thrice faulty_db)) = []"
proof -
  have c: "\<not> 1700000000000 - lastRestartTime failed_thrice < RESTART_COOLDOWN"
    by (simp add: failed_thrice_def RESTART_COOLDOWN_def)
  have ok: "\<not> fst (db_call one_online_db)" and bad: "fst (db_call faulty_db)"
    by (simp_all add: db_call_def one_online_db_def faulty_db_def)
  obtain m1 d1 where r1: "handleUnhealthyServer 1700000000000 updatedAt failed_thrice one_online_db = (m1, d1)"
    by (cases "handleUnhealthyServer 1700000000000 updatedAt failed_thrice one_online_db") auto
  obtain m2 d2 where r2: "handleUnhealthyServer 1700000000000 updatedAt failed_thrice faulty_db = (m2, d2)"
    by (cases "handleUnhealthyServer 1700000000000 updatedAt failed_thrice faulty_db") auto
  from C2_escalation [OF c r1] ok
  have 1: "hostInstance d1 = [row ''a'' ''ka'' UNREACHABLE 0]" "lastRestartTime m1 = 1700000000000"
          "exitTimers m1 = [(1000, 1)]"
    by (simp_all add: one_online_db_def row_def failed_thrice_def)
  from C2_escalation [OF c r2] bad
  have 2: "exitTimers m2 = []"
    by (simp add: failed_thrice_def)
  show ?thesis using c ok bad 1 2 by (simp add: r1 r2)
qed

lemma check_four_online:
  "checkServerHealth [] 0 m four_online_db =
     (False,
      [PerformingHealthCheck 0 0, PotentialInconsistency 4 0] @
      (if 0 < healthCheckFailures m then []
       else [FoundDisconnectedHosts 4 [''a'', ''b'', ''c'', ''d'']]),
      four_online_db)"
  by (simp add: checkServerHealth_def rawLivenessProbe_def findMany_def db_call_def Let_def
      four_online_db_def row_def)

lemma check_empty_db:
  "checkServerHealth [] 0 m \<lparr>hostInstance = [], faults = []\<rparr> =
     (True, [PerformingHealthCheck 0 0], \<lparr>hostInstance = [], faults = []\<rparr>)"
  by (simp add: checkServerHealth_def rawLivenessProbe_def findMany_def db_call_def Let_def)

lemma failing_startup:
  "fst (initialHealthCheck [] 0 health_monitor_init four_online_db) =
     \<lparr>healthCheckFailures = 1, lastRestartTime = 0, isServerHealthy = False,
      hlog = [StartingHealthMonitoring HEALTH_CHECK_INTERVAL RESTART_THRESHOLD RESTART_COOLDOWN,
              PerformingHealthCheck 0 0, PotentialInconsistency 4 0,
              FoundDisconnectedHosts 4 [''a'', ''b'', ''c'', ''d''], InitialHealthCheckFailed],
      exitTimers = []\<rparr>"
  by (simp add: initialHealthCheck_def check_four_online Let_def health_monitor_init_def)

lemma handle_four_online:
  "\<not> now - lastRestartTime m < RESTART_COOLDOWN \<Longrightarrow>
   fst (handleUnhealthyServer now touch m four_online_db) =
     m\<lparr>lastRestartTime := now,
        hlog := hlog m @ [InitiatingSelfRestart (healthCheckFailures m), ExitingProcess],
        exitTimers := exitTimers m @ [(1000, 1)]\<rparr>"
  by (simp add: handleUnhealthyServer_def updateMany_def db_call_def four_online_db_def Let_def)

lemma periodic_four_online:
  "0 < healthCheckFailures m \<Longrightarrow>
   fst (periodicHealthCheck now touch [] 0 m four_online_db) =
     (let m2 = m\<lparr>healthCheckFailures := healthCheckFailures m + 1, isServerHealthy := False,
                  hlog := hlog m @ [PerformingHealthCheck 0 0, PotentialInconsistency 4 0,
                                    HealthCheckFailed (healthCheckFailures m + 1)]\<rparr>
      in if RESTART_THRESHOLD \<le> healthCheckFailures m + 1
         then fst (handleUnhealthyServer now touch m2 four_online_db) else m2)"
  by (simp add: periodicHealthCheck_def check_four_online Let_def)

lemma failing_run:
  "monitorRun (failing_world 1700000000000)
     [failing_world 1700000300000, failing_world 1700000600000] =
   [\<lparr>healthCheckFailures = 1, lastRestartTime = 0, isServerHealthy = False,
      hlog = [StartingHealthMonitoring HEALTH_CHECK_INTERVAL RESTART_THRESHOLD RESTART_COOLDOWN,
              PerformingHealthCheck 0 0, PotentialInconsistency 4 0,
              FoundDisconnectedHosts 4 [''a'', ''b'', ''c'', ''d''], InitialHealthCheckFailed],
      exitTimers = []\<rparr>,
    \<lparr>healthCheckFailures = 2, lastRestartTime = 0, isServerHealthy = False,
      hlog = [StartingHealthMonitoring HEALTH_CHECK_INTERVAL RESTART_THRESHOLD RESTART_COOLDOWN,
              PerformingHealthCheck 0 0, PotentialInconsistency 4 0,
              FoundDisconnectedHosts 4 [''a'', ''b'', ''c'', ''d''], InitialHealthCheckFailed,
              PerformingHealthCheck 0 0, PotentialInconsistency 4 0, HealthCheckFailed 2],
      exitTimers = []\<rparr>,
    \<lparr>healthCheckFailures = 3, lastRestartTime = 1700000600000, isServerHealthy = False,
      hlog = [StartingHealthMonitoring HEALTH_CHECK_INTERVAL RESTART_THRESHOLD RESTART_COOLDOWN,
              PerformingHealthCheck 0 0, PotentialInconsistency 4 0,
              FoundDisconnectedHosts 4 [''a'', ''b'', ''c'', ''d''], InitialHealthCheckFailed,
              PerformingHealthCheck 0 0, PotentialInconsistency 4 0, HealthCheckFailed 2,
              PerformingHealthCheck 0 0, PotentialInconsistency 4 0, HealthCheckFailed 3,
              InitiatingSelfRestart 3, ExitingProcess],
      exitTimers = [(1000, 1)]\<rparr>]"
  by (simp add: monitorRun_def failing_world_def failing_startup periodic_four_online
      handle_four_online Let_def RESTART_THRESHOLD_def RESTART_COOLDOWN_def)

text \<open>
  Claim C3 as stated says that escalation is never attempted before three consecutive
  failing check cycles. The check that \<open>startServerHealthMonitoring\<close> runs at once also
  increments the counter: when it fails, the second periodic cycle already reaches the
  threshold and schedules the exit.
\<close>

theorem C3_escalates_after_two_cycles_counterexample:
  "length [failing_world 1700000300000, failing_world 1700000600000] = 2
   \<and> map healthCheckFailures
        (monitorRun (failing_world 1700000000000)
           [failing_world 1700000300000, failing_world 1700000600000]) = [1, 2, 3]
   \<and> map escalationAttempts
        (monitorRun (failing_world 1700000000000)
           [failing_world 1700000300000, failing_world 1700000600000]) = [0, 0, 1]
   \<and> map exitTimers
        (monitorRun (failing_world 1700000000000)
           [failing_world 1700000300000, failing_world 1700000600000]) = [[], [], [(1000, 1)]]"
  unfolding failing_run by (simp add: escalationAttempts_def handlerEntry_def)

text \<open>
  Claim C3, amended. Every check, at startup or periodic, leaves its verdict in the healthy
  flag, so the unhealthy states at the end of a run are its trailing failing checks. After
  the startup check and any number of periodic cycles, the failure counter equals the
  number of consecutive failing checks up to now, the startup check included. The startup
  check never escalates. A periodic cycle calls \<open>handleUnhealthyServer\<close> if and only if
  its check fails and the counter has then reached the restart threshold (3), so never
  before three consecutive failing checks. A successful periodic check resets the counter
  to 0, sets the healthy flag and does not escalate.
\<close>

theorem C3_counter_counts_consecutive_failures:
  "healthCheckFailures (last (monitorRun w0 ws)) =
     length (takeWhile (\<lambda>m. \<not> isServerHealthy m) (rev (monitorRun w0 ws)))
   \<and> escalationAttempts (hd (monitorRun w0 ws)) = 0
   \<and> escalationAttempts (last (monitorRun w0 (ws @ [w]))) =
       escalationAttempts (last (monitorRun w0 ws)) +
       (if \<not> isServerHealthy (last (monitorRun w0 (ws @ [w])))
           \<and> RESTART_THRESHOLD \<le> healthCheckFailures (last (monitorRun w0 (ws @ [w])))
        then 1 else 0)
   \<and> (escalationAttempts (last (monitorRun w0 (ws @ [w]))) \<noteq>
        escalationAttempts (last (monitorRun w0 ws)) \<longrightarrow>
        3 \<le> length (takeWhile (\<lambda>m. \<not> isServerHealthy m) (rev (monitorRun w0 (ws @ [w])))))
   \<and> (isServerHealthy (last (monitorRun w0 (ws @ [w]))) \<longrightarrow>
        healthCheckFailures (last (monitorRun w0 (ws @ [w]))) = 0
        \<and> escalationAttempts (last (monitorRun w0 (ws @ [w]))) =
            escalationAttempts (last (monitorRun w0 ws)))"
proof -
  define m where "m = last (monitorRun w0 ws)"
  define m' where "m' = fst (periodicHealthCheck (w_now w) (w_touch w) (w_hosts w) (w_clients w)
                               m (w_db w))"
  define ok where "ok = fst (checkServerHealth (w_hosts w) (w_clients w) m (w_db w))"
  have last': "last (monitorRun w0 (ws @ [w])) = m'"
    by (simp add: monitorRun_snoc m'_def m_def)
  have h: "isServerHealthy m' = ok"
    and c: "healthCheckFailures m' = (if ok then 0 else healthCheckFailures m + 1)"
    and e: "escalationAttempts m' = escalationAttempts m +
              (if \<not> ok \<and> RESTART_THRESHOLD \<le> healthCheckFailures m + 1 then 1 else 0)"
    unfolding m'_def ok_def by (rule periodic_outcome)+
  have A: "healthCheckFailures (last (monitorRun w0 ws)) =
     length (takeWhile (\<lambda>m. \<not> isServerHealthy m) (rev (monitorRun w0 ws)))"
    by (rule monitorRun_counter)
  have A': "healthCheckFailures m' =
     length (takeWhile (\<lambda>m. \<not> isServerHealthy m) (rev (monitorRun w0 (ws @ [w]))))"
    using monitorRun_counter [of w0 "ws @ [w]"] unfolding last' .
  have B: "escalationAttempts (hd (monitorRun w0 ws)) = 0"
    by (simp add: monitorRun_def Let_def initial_outcome)
  have C: "escalationAttempts m' = escalationAttempts m +
       (if \<not> isServerHealthy m' \<and> RESTART_THRESHOLD \<le> healthCheckFailures m' then 1 else 0)"
    using h c e by simp
  have D: "escalationAttempts m' \<noteq> escalationAttempts m \<longrightarrow>
        3 \<le> length (takeWhile (\<lambda>m. \<not> isServerHealthy m) (rev (monitorRun w0 (ws @ [w]))))"
    using C A' by (auto simp: RESTART_THRESHOLD_def split: if_splits)
  have E: "isServerHealthy m' \<longrightarrow>
        healthCheckFailures m' = 0 \<and> escalationAttempts m' = escalationAttempts m"
    using h c e by simp
  show ?thesis
    unfolding last' using A B C D E unfolding m_def by blast
qed

text \<open>
  C3 amended, at a run with a successful startup check, one failing cycle and then a
  successful cycle: the counter goes to 1 and back to 0, and nothing escalates.
\<close>

theorem C3_counter_counts_consecutive_failures_witness:
  "isServerHealthy (last (monitorRun (healthy_world 1700000000000)
       ([failing_world 1700000300000] @ [healthy_world 1700000600000])))
   \<and> healthCheckFailures (last (monitorRun (healthy_world 1700000000000) [failing_world 1700000300000])) = 1
   \<and> healthCheckFailures (last (monitorRun (healthy_world 1700000000000)
       ([failing_world 1700000300000] @ [healthy_world 1700000600000]))) = 0
   \<and> escalationAttempts (last (monitorRun (healthy_world 1700000000000)
       ([failing_world 1700000300000] @ [healthy_world 1700000600000]))) = 0"
proof -
  let ?w0 = "healthy_world 1700000000000"
  let ?w1 = "failing_world 1700000300000"
  let ?w2 = "healthy_world 1700000600000"
  note th1 = C3_counter_counts_consecutive_failures [of ?w0 "[]" ?w1]
  note th2 = C3_counter_counts_consecutive_failures [of ?w0 "[?w1]" ?w2]
  have start: "monitorRun ?w0 [] =
      [\<lparr>healthCheckFailures = 0, lastRestartTime = 0, isServerHealthy = True,
        hlog = [StartingHealthMonitoring HEALTH_CHECK_INTERVAL RESTART_THRESHOLD RESTART_COOLDOWN,
                PerformingHealthCheck 0 0],
        exitTimers = []\<rparr>]"
    by (simp add: monitorRun_def healthy_world_def initialHealthCheck_def check_empty_db Let_def
        health_monitor_init_def)
  have h1: "\<not> isServerHealthy (last (monitorRun ?w0 ([] @ [?w1])))"
    unfolding monitorRun_snoc
    by (simp add: periodic_outcome(1) failing_world_def check_four_online)
  have h2: "isServerHealthy (last (monitorRun ?w0 ([?w1] @ [?w2])))"
    unfolding monitorRun_snoc
    by (simp add: periodic_outcome(1) healthy_world_def check_empty_db)
  have a0: "escalationAttempts (last (monitorRun ?w0 [])) = 0"
    using th1 by (simp add: start)
  have "healthCheckFailures (last (monitorRun ?w0 ([] @ [?w1]))) = 1"
    unfolding monitorRun_snoc start
    by (simp add: periodic_outcome(2) failing_world_def check_four_online)
  then have c1: "healthCheckFailures (last (monitorRun ?w0 [?w1])) = 1" by simp
  have a1: "escalationAttempts (last (monitorRun ?w0 ([] @ [?w1]))) = 0"
    using th1 h1 a0 c1 by (simp add: RESTART_THRESHOLD_def)
  have "healthCheckFailures (last (monitorRun ?w0 ([?w1] @ [?w2]))) = 0
      \<and> escalationAttempts (last (monitorRun ?w0 ([?w1] @ [?w2]))) =
          escalationAttempts (last (monitorRun ?w0 [?w1]))"
    using th2 h2 by blast
  then show ?thesis using h2 c1 a1 by simp
qed

lemma handle_in_cooldown:
  "now - lastRestartTime m < RESTART_COOLDOWN \<Longrightarrow>
   handleUnhealthyServer now touch m d =
     (m\<lparr>hlog := hlog m @ [InRestartCooldown ((now - lastRestartTime m) div 60000)
                             (RESTART_COOLDOWN div 60000)]\<rparr>, d)"
  by (simp add: handleUnhealthyServer_def)

lemma handle_past_cooldown:
  assumes "\<not> now - lastRestartTime m < RESTART_COOLDOWN"
      and "db_call d = (thrown, d0)"
  shows "handleUnhealthyServer now touch m d =
     (if thrown
      then (m\<lparr>hlog := hlog m @ [InitiatingSelfRestart (healthCheckFailures m),
                                 FailedToPrepareRestart DbError]\<rparr>, d0)
      else (m\<lparr>lastRestartTime := now,
              hlog := hlog m @ [InitiatingSelfRestart (healthCheckFailures m), ExitingProcess],
              exitTimers := exitTimers m @ [(1000, 1)]\<rparr>,
            d0\<lparr>hostInstance :=
                 map (\<lambda>r. if status r = ONLINE then r\<lparr>status := UNREACHABLE, updatedAt := touch r\<rparr>
                           else r) (hostInstance d0)\<rparr>))"
  using assms by (simp add: handleUnhealthyServer_def updateMany_def Let_def)

text \<open>
  Claim C4. In a periodic cycle whose check fails with the counter reaching or exceeding
  the restart threshold, the counter is incremented in any case. If the last recorded
  restart is less than the cooldown (one hour) before \<open>now\<close>, nothing else happens but a
  log entry: the rows, the restart time and the timers are unchanged. Otherwise escalation
  fires: the self-restart is logged with the counter's value, and when the bulk update
  succeeds the restart time is recorded and the exit scheduled.
\<close>

theorem C4_restart_cooldown:
  assumes "\<not> fst (checkServerHealth reg cs m d)"
      and "RESTART_THRESHOLD \<le> healthCheckFailures m + 1"
      and "periodicHealthCheck now touch reg cs m d = (m', d')"
  shows "healthCheckFailures m' = healthCheckFailures m + 1
       \<and> (now - lastRestartTime m < RESTART_COOLDOWN \<longrightarrow>
            hostInstance d' = hostInstance d
            \<and> lastRestartTime m' = lastRestartTime m
            \<and> exitTimers m' = exitTimers m
            \<and> escalationAttempts m' = escalationAttempts m + 1
            \<and> last (hlog m') = InRestartCooldown ((now - lastRestartTime m) div 60000) 60)
       \<and> (\<not> now - lastRestartTime m < RESTART_COOLDOWN \<longrightarrow>
            escalationAttempts m' = escalationAttempts m + 1
            \<and> InitiatingSelfRestart (healthCheckFailures m + 1) \<in> set (hlog m')
            \<and> (\<not> fst (db_call (snd (snd (checkServerHealth reg cs m d)))) \<longrightarrow>
                 lastRestartTime m' = now
                 \<and> exitTimers m' = exitTimers m @ [(1000, 1)]
                 \<and> (\<forall>r \<in> set (hostInstance d'). status r \<noteq> ONLINE)))"
proof -
  obtain ok lg d1 where c: "checkServerHealth reg cs m d = (ok, lg, d1)"
    by (cases "checkServerHealth reg cs m d") auto
  have ok: "\<not> ok" using assms(1) c by simp
  have rows1: "hostInstance d1 = hostInstance d"
    using checkServerHealth_rows [of reg cs m d] c by simp
  define m2 where "m2 = m\<lparr>healthCheckFailures := healthCheckFailures m + 1,
                           isServerHealthy := False,
                           hlog := hlog m @ lg @ [HealthCheckFailed (healthCheckFailures m + 1)]\<rparr>"
  have m2: "healthCheckFailures m2 = healthCheckFailures m + 1"
           "lastRestartTime m2 = lastRestartTime m" "exitTimers m2 = exitTimers m"
    by (simp_all add: m2_def)
  have step: "(m', d') = handleUnhealthyServer now touch m2 d1"
    using assms(2,3) ok by (simp add: periodicHealthCheck_def c Let_def m2_def)
  have cnt: "healthCheckFailures m' = healthCheckFailures m + 1"
    using handle_fields(1) [of now touch m2 d1] step [symmetric] m2 by simp
  have att: "escalationAttempts m' = escalationAttempts m + 1"
    using periodic_outcome(3) [of now touch reg cs m d] assms by simp
  have cool: "now - lastRestartTime m < RESTART_COOLDOWN \<longrightarrow>
            hostInstance d' = hostInstance d
            \<and> lastRestartTime m' = lastRestartTime m
            \<and> exitTimers m' = exitTimers m
            \<and> last (hlog m') = InRestartCooldown ((now - lastRestartTime m) div 60000) 60"
  proof
    assume "now - lastRestartTime m < RESTART_COOLDOWN"
    then have "now - lastRestartTime m2 < RESTART_COOLDOWN" by (simp add: m2)
    from handle_in_cooldown [OF this, of touch d1] step
    show "hostInstance d' = hostInstance d
            \<and> lastRestartTime m' = lastRestartTime m
            \<and> exitTimers m' = exitTimers m
            \<and> last (hlog m') = InRestartCooldown ((now - lastRestartTime m) div 60000) 60"
      by (simp add: m2 rows1 RESTART_COOLDOWN_def)
  qed
  have fire: "\<not> now - lastRestartTime m < RESTART_COOLDOWN \<longrightarrow>
            InitiatingSelfRestart (healthCheckFailures m + 1) \<in> set (hlog m')
            \<and> (\<not> fst (db_call (snd (snd (checkServerHealth reg cs m d)))) \<longrightarrow>
                 lastRestartTime m' = now
                 \<and> exitTimers m' = exitTimers m @ [(1000, 1)]
                 \<and> (\<forall>r \<in> set (hostInstance d'). status r \<noteq> ONLINE))"
  proof
    assume "\<not> now - lastRestartTime m < RESTART_COOLDOWN"
    then have past: "\<not> now - lastRestartTime m2 < RESTART_COOLDOWN" by (simp add: m2)
    obtain thrown d0 where dc: "db_call d1 = (thrown, d0)" by (cases "db_call d1") auto
    from handle_past_cooldown [OF past dc, of touch] step
    show "InitiatingSelfRestart (healthCheckFailures m + 1) \<in> set (hlog m')
            \<and> (\<not> fst (db_call (snd (snd (checkServerHealth reg cs m d)))) \<longrightarrow>
                 lastRestartTime m' = now
                 \<and> exitTimers m' = exitTimers m @ [(1000, 1)]
                 \<and> (\<forall>r \<in> set (hostInstance d'). status r \<noteq> ONLINE))"
      by (auto simp: c dc m2 split: if_splits)
  qed
  from cnt att cool fire show ?thesis by blast
qed

text \<open>
  C4 at a monitor that has failed three times and recorded a restart: a failing cycle
  half an hour later only logs, a failing cycle one hour later escalates again.
\<close>

theorem C4_restart_cooldown_witness:
  "\<not> fst (checkServerHealth [] 0 restarted_monitor four_online_db)
   \<and> RESTART_THRESHOLD \<le> healthCheckFailures restarted_monitor + 1
   \<and> healthCheckFailures (fst (periodicHealthCheck 1700001800000 updatedAt [] 0
        restarted_monitor four_online_db)) = 4
   \<and> exitTimers (fst (periodicHealthCheck 1700001800000 updatedAt [] 0
        restarted_monitor four_online_db)) = [(1000, 1)]
   \<and> lastRestartTime (fst (periodicHealthCheck 1700001800000 updatedAt [] 0
        restarted_monitor four_online_db)) = 1700000000000
   \<and> exitTimers (fst (periodicHealthCheck 1700003600000 updatedAt [] 0
        restarted_monitor four_online_db)) = [(1000, 1), (1000, 1)]
   \<and> lastRestartTime (fst (periodicHealthCheck 1700003600000 updatedAt [] 0
        restarted_monitor four_online_db)) = 1700003600000"
proof -
  have f: "\<not> fst (checkServerHealth [] 0 restarted_monitor four_online_db)"
    by (simp add: check_four_online)
  have t: "RESTART_THRESHOLD \<le> healthCheckFailures restarted_monitor + 1"
    by (simp add: RESTART_THRESHOLD_def restarted_monitor_def)
  have "snd (snd (checkServerHealth [] 0 restarted_monitor four_online_db)) = four_online_db"
    by (simp add: check_four_online)
  then have up: "\<not> fst (db_call (snd (snd (checkServerHealth [] 0 restarted_monitor four_online_db))))"
    by (simp add: db_call_def four_online_db_def)
  obtain m1 d1 where r1:
    "periodicHealthCheck 1700001800000 updatedAt [] 0 restarted_monitor four_online_db = (m1, d1)"
    by (cases "periodicHealthCheck 1700001800000 updatedAt [] 0 restarted_monitor four_online_db") auto
  obtain m2 d2 where r2:
    "periodicHealthCheck 1700003600000 updatedAt [] 0 restarted_monitor four_online_db = (m2, d2)"
    by (cases "periodicHealthCheck 1700003600000 updatedAt [] 0 restarted_monitor four_online_db") auto
  have 1: "healthCheckFailures m1 = 4" "exitTimers m1 = [(1000, 1)]"
          "lastRestartTime m1 = 1700000000000"
    using C4_restart_cooldown [OF f t r1]
    by (simp_all add: restarted_monitor_def RESTART_COOLDOWN_def)
  have 2: "exitTimers m2 = [(1000, 1), (1000, 1)]" "lastRestartTime m2 = 1700003600000"
    using C4_restart_cooldown [OF f t r2] up
    by (simp_all add: restarted_monitor_def RESTART_COOLDOWN_def)
  show ?thesis using f t 1 2 by (simp add: r1 r2)
qed

end
